theory Spec2Isabelle
  imports Main "HOL-Library.Word" "HOL-Library.Monad_Syntax"
begin

unbundle bit_operations_syntax

section \<open>Fixed-width types and status codes (tdef.h)\<close>

type_synonym t_uint8_t = "8 word"
type_synonym t_uint16_t = "16 word"
type_synonym t_uint32_t = "32 word"

text \<open>The enum \<^verbatim>\<open>t_status_t\<close>.\<close>

datatype t_status_t =
  T_OK | T_ERR | T_TIMEOUT | T_BUSY | T_INVALID | T_NULL | T_DELETED | T_UNSUPPORTED

section \<open>Intrusive circular lists (list.c)\<close>

text \<open>
  A \<^verbatim>\<open>t_list_t\<close> is a pair of pointers embedded in another object. The addresses of
  the list nodes the kernel owns are the constructors of \<open>node\<close>; the two pointer fields of
  all nodes form the \<open>t_list_heap\<close>. A timer is either the one embedded in a thread or a
  standalone object.
\<close>

datatype timer_ref = ThreadTimer nat | UserTimer nat

datatype node =
    ReadyHead nat
  | TermHead
  | WaitHead nat
  | TimerHead nat
  | ExpiredHead
  | Tlist nat
  | TimerRow timer_ref

record t_list_heap =
  lnext :: "node \<Rightarrow> node"
  lprev :: "node \<Rightarrow> node"

definition set_next :: "node \<Rightarrow> node \<Rightarrow> t_list_heap \<Rightarrow> t_list_heap" where
  "set_next a b h = h\<lparr>lnext := (lnext h)(a := b)\<rparr>"

definition set_prev :: "node \<Rightarrow> node \<Rightarrow> t_list_heap \<Rightarrow> t_list_heap" where
  "set_prev a b h = h\<lparr>lprev := (lprev h)(a := b)\<rparr>"

definition t_list_init :: "node \<Rightarrow> t_list_heap \<Rightarrow> t_list_heap" where
  "t_list_init l h = set_next l l (set_prev l l h)"

definition t_list_insert_after :: "node \<Rightarrow> node \<Rightarrow> t_list_heap \<Rightarrow> t_list_heap" where
  "t_list_insert_after l n h =
     (let h1 = set_prev (lnext h l) n h;
          h2 = set_next n (lnext h1 l) h1;
          h3 = set_next l n h2
      in set_prev n l h3)"

definition t_list_insert_before :: "node \<Rightarrow> node \<Rightarrow> t_list_heap \<Rightarrow> t_list_heap" where
  "t_list_insert_before l n h =
     (let h1 = set_next (lprev h l) n h;
          h2 = set_prev n (lprev h1 l) h1;
          h3 = set_prev l n h2
      in set_next n l h3)"

definition t_list_delete :: "node \<Rightarrow> t_list_heap \<Rightarrow> t_list_heap" where
  "t_list_delete d h =
     (let h1 = set_prev (lnext h d) (lprev h d) h;
          h2 = set_next (lprev h1 d) (lnext h1 d) h1
      in set_next d d (set_prev d d h2))"

definition t_list_isempty :: "node \<Rightarrow> t_list_heap \<Rightarrow> bool" where
  "t_list_isempty l h = (lnext h l = l)"

text \<open>
  \<^verbatim>\<open>t_list_length\<close> walks \<^verbatim>\<open>next\<close> until it is back at the head; on a chain that never
  returns to the head the C loop does not terminate, which is the value \<open>None\<close> here.
\<close>

partial_function (option) t_list_length_loop ::
  "t_list_heap \<Rightarrow> node \<Rightarrow> node \<Rightarrow> t_uint32_t \<Rightarrow> t_uint32_t option" where
  "t_list_length_loop h l p len =
     (if lnext h p \<noteq> l then t_list_length_loop h l (lnext h p) (len + 1) else Some len)"

declare t_list_length_loop.simps [code]

definition t_list_length :: "node \<Rightarrow> t_list_heap \<Rightarrow> t_uint32_t option" where
  "t_list_length l h = t_list_length_loop h l l 0"

text \<open>
  \<^verbatim>\<open>T_LIST_ENTRY(node, t_thread_t, tlist)\<close> and \<^verbatim>\<open>T_LIST_ENTRY(node, t_timer_t, row[0])\<close>:
  the object a node is embedded in. Applied to a node that is not embedded in such an
  object (a list head), the macro computes a wild pointer; that is \<open>None\<close>.
\<close>

fun thread_entry :: "node \<Rightarrow> nat option" where
  "thread_entry (Tlist t) = Some t"
| "thread_entry _ = None"

fun timer_entry :: "node \<Rightarrow> timer_ref option" where
  "timer_entry (TimerRow r) = Some r"
| "timer_entry _ = None"

section \<open>Kernel objects (tdef.h) and global state\<close>

definition TO_THREAD_PRIORITY_MAX :: nat where "TO_THREAD_PRIORITY_MAX = 32"

definition TO_THREAD_READY :: t_uint32_t where "TO_THREAD_READY = 0x01"
definition TO_THREAD_SUSPEND :: t_uint32_t where "TO_THREAD_SUSPEND = 0x02"
definition TO_THREAD_TERMINATED :: t_uint32_t where "TO_THREAD_TERMINATED = 0x08"
definition TO_THREAD_RUNNING :: t_uint32_t where "TO_THREAD_RUNNING = 0x10"
definition TO_THREAD_DELETED :: t_uint32_t where "TO_THREAD_DELETED = 0x20"
definition TO_THREAD_INIT :: t_uint32_t where "TO_THREAD_INIT = 0x80"

definition TO_THREAD_GET_STATUS :: t_uint32_t where "TO_THREAD_GET_STATUS = 0x01"
definition TO_THREAD_GET_PRIORITY :: t_uint32_t where "TO_THREAD_GET_PRIORITY = 0x03"
definition TO_THREAD_SET_PRIORITY :: t_uint32_t where "TO_THREAD_SET_PRIORITY = 0x04"

definition TO_TIMER_GET_TIME :: t_uint32_t where "TO_TIMER_GET_TIME = 0x01"
definition TO_TIMER_SET_TIME :: t_uint32_t where "TO_TIMER_SET_TIME = 0x02"

definition TO_IPC_FLAG_FIFO :: t_uint8_t where "TO_IPC_FLAG_FIFO = 0x00"
definition TO_IPC_FLAG_PRIO :: t_uint8_t where "TO_IPC_FLAG_PRIO = 0x01"
definition TO_WAITING_FOREVER :: t_uint32_t where "TO_WAITING_FOREVER = 0xFFFFFFFF"
definition DUMMY_PRIORITY :: t_uint8_t where "DUMMY_PRIORITY = 0xFF"
definition MUTEX_RECURSIVE_COUNT_MAX :: t_uint16_t where "MUTEX_RECURSIVE_COUNT_MAX = 0xFF"

text \<open>
  The fields of \<^verbatim>\<open>t_thread_t\<close> the kernel logic reads and writes (the saved stack
  pointer, entry, argument and stack are left to the port layer). The \<^verbatim>\<open>tlist\<close> node of
  thread \<open>t\<close> is \<open>Tlist t\<close> in the list heap, its timer is \<open>ThreadTimer t\<close>.
\<close>

record t_thread_t =
  current_priority :: t_uint8_t
  init_priority :: t_uint8_t
  number_mask :: t_uint32_t
  init_tick :: t_uint32_t
  remaining_tick :: t_uint32_t
  status :: t_uint32_t

text \<open>
  A timer's callback is a function pointer: the kernel's own \<^verbatim>\<open>timeout_function\<close> or
  a user function, identified by a number. The row node of timer \<open>r\<close> is \<open>TimerRow r\<close>.
\<close>

datatype callback = TimeoutFunction | UserCallback nat

record t_timer_t =
  timeout_func :: "callback option"
  timer_p :: "nat option"
  timer_init_tick :: t_uint32_t
  timeout_tick :: t_uint32_t

datatype t_ipc_type_t = IPC_SEMA | IPC_MUTEX | IPC_RECURSIVE_MUTEX | IPC_QUEUE

text \<open>
  \<^verbatim>\<open>t_ipc_t\<close>. The C struct overlays the queue pointers and the semaphore data in a
  union; here each has its own fields, and an object only uses those of its type. The queue
  pointers are byte addresses into the message pool. The wait list head of object \<open>i\<close> is
  \<open>WaitHead i\<close>.
\<close>

record t_ipc_t =
  ipc_type :: t_ipc_type_t
  holder :: "nat option"
  recursive :: t_uint16_t
  original_prio :: t_uint8_t
  q_head :: nat
  q_tail :: nat
  read_from :: nat
  write_to :: nat
  msg_waiting :: t_uint16_t
  ipc_length :: t_uint16_t
  item_size :: t_uint16_t
  ipc_status :: t_uint8_t
  ipc_mode :: t_uint8_t

text \<open>
  The globals of scheduler.c and timer.c, the objects the kernel points to, the interrupt
  mask register, the byte memory of the message pools, and the record of the context
  switches handed to the assembly primitive (previous thread, \<open>None\<close> for a null
  \<^verbatim>\<open>prev_thread\<close>, and next thread).
\<close>

record kernel =
  links :: t_list_heap
  threads :: "nat \<Rightarrow> t_thread_t"
  timers :: "timer_ref \<Rightarrow> t_timer_t"
  ipcs :: "nat \<Rightarrow> t_ipc_t"
  t_current_thread :: "nat option"
  t_cur_num_of_ready_tasks :: t_uint8_t
  t_current_priority :: t_uint8_t
  t_thread_ready_priority_group :: t_uint32_t
  t_schedulue_suspend :: t_uint32_t
  s_tick :: t_uint32_t
  g_cur_timer_list :: node
  g_overflow_timer_list :: node
  primask :: t_uint32_t
  mem :: "nat \<Rightarrow> t_uint8_t"
  switches :: "(nat option \<times> nat) list"

definition thread_upd :: "nat \<Rightarrow> (t_thread_t \<Rightarrow> t_thread_t) \<Rightarrow> kernel \<Rightarrow> kernel" where
  "thread_upd t f s = s\<lparr>threads := (threads s)(t := f (threads s t))\<rparr>"

definition timer_upd :: "timer_ref \<Rightarrow> (t_timer_t \<Rightarrow> t_timer_t) \<Rightarrow> kernel \<Rightarrow> kernel" where
  "timer_upd r f s = s\<lparr>timers := (timers s)(r := f (timers s r))\<rparr>"

definition ipc_upd :: "nat \<Rightarrow> (t_ipc_t \<Rightarrow> t_ipc_t) \<Rightarrow> kernel \<Rightarrow> kernel" where
  "ipc_upd i f s = s\<lparr>ipcs := (ipcs s)(i := f (ipcs s i))\<rparr>"

definition links_upd :: "(t_list_heap \<Rightarrow> t_list_heap) \<Rightarrow> kernel \<Rightarrow> kernel" where
  "links_upd f s = s\<lparr>links := f (links s)\<rparr>"

section \<open>Port primitives\<close>

text \<open>
  Modelled from the spec: \<^verbatim>\<open>t_irq_disable\<close> and \<^verbatim>\<open>t_irq_enable\<close> are assembly that is
  not among the sources. The header documents them as returning the previous PRIMASK and
  restoring a saved PRIMASK; the spec calls them \<^verbatim>\<open>critical_enter() \<rightarrow> mask\<close> and
  \<^verbatim>\<open>critical_exit(mask)\<close>, a save and restore of the disable mask.
\<close>

definition t_irq_disable :: "kernel \<Rightarrow> t_uint32_t \<times> kernel" where
  "t_irq_disable s = (primask s, s\<lparr>primask := 1\<rparr>)"

definition t_irq_enable :: "t_uint32_t \<Rightarrow> kernel \<Rightarrow> kernel" where
  "t_irq_enable disirq s = s\<lparr>primask := disirq\<rparr>"

text \<open>
  Modelled from the spec: \<^verbatim>\<open>t_normal_switch_task\<close> is assembly that is not among the
  sources. The spec's \<^verbatim>\<open>switch(&old_sp, &new_sp)\<close> saves the caller's registers and resumes
  the new thread; of the kernel state modelled here it changes nothing, so the model only
  records the request.
\<close>

definition t_normal_switch_task :: "nat option \<Rightarrow> nat \<Rightarrow> kernel \<Rightarrow> kernel" where
  "t_normal_switch_task prev_thread next_thread s =
     s\<lparr>switches := switches s @ [(prev_thread, next_thread)]\<rparr>"

text \<open>
  \<^verbatim>\<open>__t_fls\<close> (cpuport.c, selected by \<^verbatim>\<open>TO_LOWER_PRIORITY_NUM_HIGHER_PRIORITY 0\<close>): 0 for
  0, otherwise \<open>32 - clz(value)\<close>, the index of the most significant set bit counted
  from 1.
\<close>

primrec fls_below :: "nat \<Rightarrow> t_uint32_t \<Rightarrow> nat" where
  "fls_below 0 w = 0"
| "fls_below (Suc k) w = (if bit w k then Suc k else fls_below k w)"

definition t_fls :: "t_uint32_t \<Rightarrow> t_uint32_t" where
  "t_fls v = of_nat (fls_below 32 v)"

section \<open>Scheduler (scheduler.c)\<close>

definition get_highest_ready_priority :: "t_uint32_t \<Rightarrow> t_uint32_t" where
  "get_highest_ready_priority ready_group = t_fls ready_group - 1"

definition t_sched_init :: "kernel \<Rightarrow> kernel" where
  "t_sched_init s =
     (let s1 = links_upd (\<lambda>h. fold (\<lambda>i. t_list_init (ReadyHead i)) [0..<TO_THREAD_PRIORITY_MAX] h) s;
          s2 = links_upd (t_list_init TermHead) s1;
          s3 = s2\<lparr>t_schedulue_suspend := 0\<rparr>
      in s3\<lparr>t_current_thread := None\<rparr>)"

definition t_sched_suspend :: "kernel \<Rightarrow> kernel" where
  "t_sched_suspend s = s\<lparr>t_schedulue_suspend := t_schedulue_suspend s + 1\<rparr>"

text \<open>
  \<^verbatim>\<open>t_sched_switch\<close>. The result is \<open>None\<close> when the ready list the bitmap points to has no
  thread at its head, where the C code goes on with the wild pointer
  \<^verbatim>\<open>T_LIST_ENTRY\<close> computes from the list head.
\<close>

definition t_sched_switch :: "kernel \<Rightarrow> kernel option" where
  "t_sched_switch s =
     (if t_schedulue_suspend s \<noteq> 0 then Some s
      else
        let highest_ready_priority =
              get_highest_ready_priority (t_thread_ready_priority_group s)
        in if of_nat TO_THREAD_PRIORITY_MAX \<le> highest_ready_priority then Some s
           else
             (case thread_entry (lnext (links s) (ReadyHead (unat highest_ready_priority))) of
                None \<Rightarrow> None
              | Some next_thread \<Rightarrow>
                  if t_current_thread s = Some next_thread then Some s
                  else
                    let prev_thread = t_current_thread s;
                        s1 = s\<lparr>t_current_thread := Some next_thread\<rparr>;
                        s2 = (case prev_thread of
                                None \<Rightarrow> s1
                              | Some pt \<Rightarrow>
                                  if status (threads s1 pt) = TO_THREAD_RUNNING
                                  then thread_upd pt (\<lambda>th. th\<lparr>status := TO_THREAD_READY\<rparr>) s1
                                  else s1);
                        s3 = thread_upd next_thread (\<lambda>th. th\<lparr>status := TO_THREAD_RUNNING\<rparr>) s2;
                        s4 = s3\<lparr>t_current_priority := current_priority (threads s3 next_thread)\<rparr>
                    in Some (t_normal_switch_task prev_thread next_thread s4)))"

definition t_sched_resume :: "kernel \<Rightarrow> kernel option" where
  "t_sched_resume s =
     (let s1 = s\<lparr>t_schedulue_suspend := t_schedulue_suspend s - 1\<rparr>
      in if t_schedulue_suspend s1 = 0
         then (if 0 < t_cur_num_of_ready_tasks s1 then t_sched_switch s1 else Some s1)
         else Some s1)"

text \<open>
  \<^verbatim>\<open>t_sched_remove_thread\<close> and \<^verbatim>\<open>t_sched_insert_thread\<close>. Indexing
  \<^verbatim>\<open>t_thread_ready_lists\<close> with a priority of \<^verbatim>\<open>TO_THREAD_PRIORITY_MAX\<close> or more is
  outside the array: \<open>None\<close>.
\<close>

definition t_sched_remove_thread :: "nat option \<Rightarrow> kernel \<Rightarrow> kernel option" where
  "t_sched_remove_thread thread s =
     (case thread of
        None \<Rightarrow> Some s
      | Some t \<Rightarrow>
          let (level, s1) = t_irq_disable s;
              s2 = links_upd (t_list_delete (Tlist t)) s1;
              prio = unat (current_priority (threads s2 t))
          in if TO_THREAD_PRIORITY_MAX \<le> prio then None
             else
               let s3 = (if t_list_isempty (ReadyHead prio) (links s2)
                         then s2\<lparr>t_thread_ready_priority_group :=
                                   t_thread_ready_priority_group s2 AND NOT (number_mask (threads s2 t))\<rparr>
                         else s2);
                   s4 = s3\<lparr>t_cur_num_of_ready_tasks := t_cur_num_of_ready_tasks s3 - 1\<rparr>
               in Some (t_irq_enable level s4))"

definition t_sched_insert_thread :: "nat option \<Rightarrow> kernel \<Rightarrow> kernel option" where
  "t_sched_insert_thread thread s =
     (case thread of
        None \<Rightarrow> Some s
      | Some t \<Rightarrow>
          let (level, s1) = t_irq_disable s;
              prio = unat (current_priority (threads s1 t))
          in if TO_THREAD_PRIORITY_MAX \<le> prio then None
             else
               let s2 = links_upd (t_list_insert_before (ReadyHead prio) (Tlist t)) s1;
                   s3 = s2\<lparr>t_thread_ready_priority_group :=
                             t_thread_ready_priority_group s2 OR number_mask (threads s2 t)\<rparr>;
                   s4 = s3\<lparr>t_cur_num_of_ready_tasks := t_cur_num_of_ready_tasks s3 + 1\<rparr>
               in Some (t_irq_enable level s4))"

text \<open>
  \<^verbatim>\<open>t_thread_rotate_same_prio\<close> dereferences \<^verbatim>\<open>t_current_thread\<close> without a null
  check: \<open>None\<close> for a null current thread.
\<close>

definition t_thread_rotate_same_prio :: "kernel \<Rightarrow> kernel option" where
  "t_thread_rotate_same_prio s =
     (case t_current_thread s of
        None \<Rightarrow> None
      | Some cur \<Rightarrow>
          let (level, s1) = t_irq_disable s;
              prio = unat (current_priority (threads s1 cur))
          in if TO_THREAD_PRIORITY_MAX \<le> prio then None
             else
               (case t_list_length (ReadyHead prio) (links s1) of
                  None \<Rightarrow> None
                | Some n \<Rightarrow>
                    if n \<le> 1 then Some (t_irq_enable level s1)
                    else
                      let s2 = links_upd (t_list_delete (Tlist cur)) s1;
                          s3 = links_upd (t_list_insert_before (ReadyHead prio) (Tlist cur)) s2
                      in t_sched_switch (t_irq_enable level s3)))"

section \<open>Threads (thread.c)\<close>

definition t_thread_startup :: "nat option \<Rightarrow> kernel \<Rightarrow> (t_status_t \<times> kernel) option" where
  "t_thread_startup thread s =
     (case thread of
        None \<Rightarrow> Some (T_NULL, s)
      | Some t \<Rightarrow>
          if status (threads s t) = TO_THREAD_DELETED then Some (T_ERR, s)
          else
            let (level, s1) = t_irq_disable s;
                s2 = thread_upd t (\<lambda>th. th\<lparr>current_priority := init_priority th\<rparr>) s1;
                s3 = thread_upd t (\<lambda>th. th\<lparr>status := TO_THREAD_READY\<rparr>) s2;
                s4 = thread_upd t (\<lambda>th. th\<lparr>remaining_tick := init_tick th\<rparr>) s3;
                s5 = s4\<lparr>t_thread_ready_priority_group :=
                          t_thread_ready_priority_group s4 OR number_mask (threads s4 t)\<rparr>;
                prio = unat (current_priority (threads s5 t))
            in if TO_THREAD_PRIORITY_MAX \<le> prio then None
               else
                 let s6 = links_upd (t_list_insert_before (ReadyHead prio) (Tlist t)) s5
                 in Some (T_OK, t_irq_enable level s6))"

text \<open>
  \<^verbatim>\<open>t_thread_ctrl\<close>. \<open>arg\<close> is \<open>None\<close> for a null pointer and otherwise the 32-bit word
  it points to; the second component of the result is that word after the call. The
  priority commands access one byte of it, the low one on the little-endian target.
\<close>

definition t_thread_ctrl ::
  "nat option \<Rightarrow> t_uint32_t \<Rightarrow> t_uint32_t option \<Rightarrow> kernel \<Rightarrow> t_status_t \<times> t_uint32_t option \<times> kernel" where
  "t_thread_ctrl thread cmd arg s =
     (case thread of
        None \<Rightarrow> (T_NULL, arg, s)
      | Some t \<Rightarrow>
          if cmd = TO_THREAD_GET_STATUS then
            (T_OK, map_option (\<lambda>_. status (threads s t)) arg, s)
          else if cmd = TO_THREAD_GET_PRIORITY then
            (T_OK, map_option (\<lambda>v. (v AND NOT 0xFF) OR ucast (current_priority (threads s t))) arg, s)
          else if cmd = TO_THREAD_SET_PRIORITY then
            (case arg of
               Some v \<Rightarrow>
                 let s1 = thread_upd t (\<lambda>th. th\<lparr>current_priority := ucast v\<rparr>) s;
                     s2 = thread_upd t
                            (\<lambda>th. th\<lparr>number_mask := push_bit (unat (current_priority th)) 1\<rparr>) s1
                 in (T_OK, arg, s2)
             | None \<Rightarrow> (T_ERR, arg, s))
          else (T_UNSUPPORTED, arg, s))"

section \<open>Timers (timer.c)\<close>

text \<open>
  \<^verbatim>\<open>get_tick_diff\<close>, in the configuration the file fixes
  (\<^verbatim>\<open>TIMER_USE_OVERFLOW_LIST 1\<close>): all operands are \<^verbatim>\<open>t_uint32_t\<close>, so
  \<^verbatim>\<open>end_tick + 0xFFFFFFFFUL - start_tick\<close> is computed modulo \<open>2 ^ 32\<close>.
\<close>

definition get_tick_diff :: "t_uint32_t \<Rightarrow> t_uint32_t \<Rightarrow> t_uint32_t" where
  "get_tick_diff start_tick end_tick =
     (if end_tick \<ge> start_tick then end_tick - start_tick
      else end_tick + 0xFFFFFFFF - start_tick)"

text \<open>
  The other branch of the same function (\<^verbatim>\<open>TIMER_USE_OVERFLOW_LIST 0\<close>), which the
  build does not select: the plain modular difference.
\<close>

definition get_tick_diff_single_list :: "t_uint32_t \<Rightarrow> t_uint32_t \<Rightarrow> t_uint32_t" where
  "get_tick_diff_single_list start_tick end_tick = end_tick - start_tick"

definition t_tick_get :: "kernel \<Rightarrow> t_uint32_t" where
  "t_tick_get s = s_tick s"

definition t_timer_list_init :: "kernel \<Rightarrow> kernel" where
  "t_timer_list_init s =
     links_upd (t_list_init (TimerHead 1)) (links_upd (t_list_init (TimerHead 0)) s)"

definition t_timer_init ::
  "timer_ref option \<Rightarrow> callback option \<Rightarrow> nat option \<Rightarrow> t_uint32_t \<Rightarrow> kernel \<Rightarrow> t_status_t \<times> kernel" where
  "t_timer_init timer func p tick s =
     (case timer of
        None \<Rightarrow> (T_NULL, s)
      | Some r \<Rightarrow>
          if func = None then (T_NULL, s)
          else
            let s1 = links_upd (t_list_init (TimerRow r)) s
            in (T_OK, timer_upd r (\<lambda>_. \<lparr>timeout_func = func, timer_p = p,
                                          timer_init_tick = tick, timeout_tick = 0\<rparr>) s1))"

definition s_timer_remove :: "timer_ref \<Rightarrow> kernel \<Rightarrow> kernel" where
  "s_timer_remove r s =
     (let (level, s1) = t_irq_disable s;
          s2 = links_upd (t_list_delete (TimerRow r)) s1
      in t_irq_enable level s2)"

text \<open>
  \<^verbatim>\<open>t_timer_ctrl\<close>; \<open>arg\<close> as in \<open>t_thread_ctrl\<close>. \<^verbatim>\<open>TO_TIMER_SET_TIME\<close> reads
  through \<open>arg\<close> without a null check: \<open>None\<close> for a null \<open>arg\<close>.
\<close>

definition t_timer_ctrl ::
  "timer_ref option \<Rightarrow> t_uint32_t \<Rightarrow> t_uint32_t option \<Rightarrow> kernel
     \<Rightarrow> (t_status_t \<times> t_uint32_t option \<times> kernel) option" where
  "t_timer_ctrl timer cmd arg s =
     (case timer of
        None \<Rightarrow> Some (T_NULL, arg, s)
      | Some r \<Rightarrow>
          if cmd = TO_TIMER_GET_TIME then
            Some (T_OK, map_option (\<lambda>_. timer_init_tick (timers s r)) arg, s)
          else if cmd = TO_TIMER_SET_TIME then
            (case arg of
               None \<Rightarrow> None
             | Some v \<Rightarrow> Some (T_OK, arg, timer_upd r (\<lambda>tm. tm\<lparr>timer_init_tick := v\<rparr>) s))
          else Some (T_UNSUPPORTED, arg, s))"

definition t_timer_stop :: "timer_ref option \<Rightarrow> kernel \<Rightarrow> t_status_t \<times> kernel" where
  "t_timer_stop timer s =
     (case timer of None \<Rightarrow> (T_NULL, s) | Some r \<Rightarrow> (T_OK, s_timer_remove r s))"

text \<open>
  The ordered insertion of \<^verbatim>\<open>t_timer_start\<close>: the walk stops at the node whose successor
  is the head or expires strictly later than the new timer.
\<close>

partial_function (option) t_timer_start_walk ::
  "t_list_heap \<Rightarrow> (timer_ref \<Rightarrow> t_timer_t) \<Rightarrow> node \<Rightarrow> t_uint32_t \<Rightarrow> node \<Rightarrow> node option" where
  "t_timer_start_walk h tms sentinel tick p =
     (if lnext h p \<noteq> sentinel then
        (case timer_entry (lnext h p) of
           None \<Rightarrow> None
         | Some next_timer \<Rightarrow>
             if timeout_tick (tms next_timer) > tick then Some p
             else t_timer_start_walk h tms sentinel tick (lnext h p))
      else Some p)"

declare t_timer_start_walk.simps [code]

definition t_timer_start :: "timer_ref option \<Rightarrow> kernel \<Rightarrow> (t_status_t \<times> kernel) option" where
  "t_timer_start timer s =
     (case timer of
        None \<Rightarrow> Some (T_NULL, s)
      | Some r \<Rightarrow>
          let (level, s1) = t_irq_disable s;
              s2 = s_timer_remove r s1;
              s3 = timer_upd r
                     (\<lambda>tm. tm\<lparr>timeout_tick := t_tick_get s2 + timer_init_tick tm\<rparr>) s2;
              sentinel = (if timeout_tick (timers s3 r) > t_tick_get s3
                          then g_cur_timer_list s3 else g_overflow_timer_list s3)
          in do {
               p \<leftarrow> t_timer_start_walk (links s3) (timers s3) sentinel
                      (timeout_tick (timers s3 r)) sentinel;
               let s4 = links_upd (t_list_insert_after p (TimerRow r)) s3;
               Some (T_OK, t_irq_enable level s4)
             })"

text \<open>
  \<^verbatim>\<open>timeout_function\<close>, the callback of every thread's own timer; \<open>p\<close> is the thread.
\<close>

definition timeout_function :: "nat option \<Rightarrow> kernel \<Rightarrow> kernel option" where
  "timeout_function p s =
     (case p of
        None \<Rightarrow> Some s
      | Some t \<Rightarrow>
          do {
            let s1 = links_upd (t_list_delete (Tlist t)) s;
            let s2 = thread_upd t (\<lambda>th. th\<lparr>status := TO_THREAD_READY\<rparr>) s1;
            s3 \<leftarrow> t_sched_insert_thread (Some t) s2;
            t_sched_switch s3
          })"

text \<open>
  A call through \<^verbatim>\<open>timer->timeout_func\<close>. What a user callback does to the kernel state
  is the parameter \<open>ucb\<close>.
\<close>

definition run_callback ::
  "(nat \<Rightarrow> nat option \<Rightarrow> kernel \<Rightarrow> kernel option) \<Rightarrow> callback \<Rightarrow> nat option \<Rightarrow> kernel \<Rightarrow> kernel option" where
  "run_callback ucb f p s =
     (case f of TimeoutFunction \<Rightarrow> timeout_function p s | UserCallback k \<Rightarrow> ucb k p s)"

text \<open>
  \<^verbatim>\<open>t_timer_check\<close>: the first loop moves expired timers from the current list to the
  local \<^verbatim>\<open>expired_list\<close> (the node \<open>ExpiredHead\<close>), the second loop takes them from there
  and calls them. The result lists the timers whose callbacks were called, in call order.
\<close>

partial_function (option) t_timer_check_collect :: "kernel \<Rightarrow> kernel option" where
  "t_timer_check_collect s =
     (if \<not> t_list_isempty (g_cur_timer_list s) (links s) then
        (let node = lnext (links s) (g_cur_timer_list s)
         in case timer_entry node of
              None \<Rightarrow> None
            | Some timer \<Rightarrow>
                if s_tick s \<ge> timeout_tick (timers s timer) then
                  t_timer_check_collect
                    (links_upd (t_list_insert_after ExpiredHead node)
                       (links_upd (t_list_delete node) s))
                else Some s)
      else Some s)"

declare t_timer_check_collect.simps [code]

partial_function (option) t_timer_check_fire ::
  "(nat \<Rightarrow> nat option \<Rightarrow> kernel \<Rightarrow> kernel option) \<Rightarrow> timer_ref list \<Rightarrow> kernel
     \<Rightarrow> (timer_ref list \<times> kernel) option" where
  "t_timer_check_fire ucb called s =
     (if \<not> t_list_isempty ExpiredHead (links s) then
        (let node = lnext (links s) ExpiredHead
         in case timer_entry node of
              None \<Rightarrow> None
            | Some timer \<Rightarrow>
                (let s1 = links_upd (t_list_delete node) s
                 in case timeout_func (timers s1 timer) of
                      None \<Rightarrow> t_timer_check_fire ucb called s1
                    | Some f \<Rightarrow>
                        (case run_callback ucb f (timer_p (timers s1 timer)) s1 of
                           None \<Rightarrow> None
                         | Some s2 \<Rightarrow> t_timer_check_fire ucb (called @ [timer]) s2)))
      else Some (called, s))"

declare t_timer_check_fire.simps [code]

definition t_timer_check ::
  "(nat \<Rightarrow> nat option \<Rightarrow> kernel \<Rightarrow> kernel option) \<Rightarrow> kernel \<Rightarrow> (timer_ref list \<times> kernel) option" where
  "t_timer_check ucb s =
     (let s0 = links_upd (t_list_init ExpiredHead) s;
          (level, s1) = t_irq_disable s0
      in do {
           s2 \<leftarrow> t_timer_check_collect s1;
           t_timer_check_fire ucb [] (t_irq_enable level s2)
         })"

section \<open>Thread creation (thread.c)\<close>

text \<open>
  \<^verbatim>\<open>_t_thread_create\<close> and \<^verbatim>\<open>t_thread_create_static\<close>, without the stack frame the
  port layer prepares. \<open>entry\<close> and \<open>stackaddr\<close> are the pointers (\<open>None\<close> for null),
  \<open>priority\<close> is a \<^verbatim>\<open>t_int8_t\<close>.
\<close>

definition t_thread_create_static ::
  "nat option \<Rightarrow> nat option \<Rightarrow> t_uint32_t \<Rightarrow> t_uint8_t \<Rightarrow> t_uint32_t \<Rightarrow> nat option \<Rightarrow> kernel
     \<Rightarrow> t_status_t \<times> kernel" where
  "t_thread_create_static entry stackaddr stacksize priority time_slice thread s =
     (case thread of
        None \<Rightarrow> (T_NULL, s)
      | Some t \<Rightarrow>
          if entry = None \<or> stackaddr = None \<or> stacksize = 0 then (T_NULL, s)
          else if sint priority < 0 \<or> int TO_THREAD_PRIORITY_MAX \<le> sint priority then (T_INVALID, s)
          else if time_slice = 0 then (T_INVALID, s)
          else
            let s1 = links_upd (t_list_init (Tlist t)) s;
                s2 = thread_upd t (\<lambda>th. th\<lparr>current_priority := priority,
                                            init_priority := priority\<rparr>) s1;
                s3 = thread_upd t
                       (\<lambda>th. th\<lparr>number_mask := push_bit (unat (current_priority th)) 1\<rparr>) s2;
                s4 = thread_upd t (\<lambda>th. th\<lparr>init_tick := time_slice,
                                            remaining_tick := time_slice\<rparr>) s3;
                (r, s5) = t_timer_init (Some (ThreadTimer t)) (Some TimeoutFunction) (Some t)
                            time_slice s4
            in if r \<noteq> T_OK then (T_ERR, s5)
               else (T_OK, thread_upd t (\<lambda>th. th\<lparr>status := TO_THREAD_INIT\<rparr>) s5))"

section \<open>IPC (ipc.c)\<close>

text \<open>
  A blocking call either returns a status or reaches \<^verbatim>\<open>t_sched_switch\<close> with the caller
  suspended. The models below follow a call from its entry to the first of the two; the
  retry after a wake-up runs the same loop body again.
\<close>

datatype call_result = Returned t_status_t | Suspended

text \<open>
  The walk of \<^verbatim>\<open>t_ipc_suspend\<close> for \<^verbatim>\<open>TO_IPC_FLAG_PRIO\<close>, with the comparison of the
  configuration \<^verbatim>\<open>TO_LOWER_PRIORITY_NUM_HIGHER_PRIORITY 0\<close>.
\<close>

partial_function (option) t_ipc_suspend_walk ::
  "t_list_heap \<Rightarrow> (nat \<Rightarrow> t_thread_t) \<Rightarrow> node \<Rightarrow> t_uint8_t \<Rightarrow> node \<Rightarrow> node option" where
  "t_ipc_suspend_walk h ths sentinel prio p =
     (if lnext h p \<noteq> sentinel then
        (case thread_entry (lnext h p) of
           None \<Rightarrow> None
         | Some next_thread \<Rightarrow>
             if prio > current_priority (ths next_thread) then Some p
             else t_ipc_suspend_walk h ths sentinel prio (lnext h p))
      else Some p)"

declare t_ipc_suspend_walk.simps [code]

definition t_ipc_suspend ::
  "node \<Rightarrow> nat option \<Rightarrow> t_uint8_t \<Rightarrow> kernel \<Rightarrow> (t_status_t \<times> kernel) option" where
  "t_ipc_suspend sentinel thread flag s =
     (case thread of
        None \<Rightarrow> Some (T_NULL, s)
      | Some t \<Rightarrow>
          let (level, s1) = t_irq_disable s
          in do {
               s2 \<leftarrow> t_sched_remove_thread (Some t) s1;
               let s3 = thread_upd t (\<lambda>th. th\<lparr>status := TO_THREAD_SUSPEND\<rparr>) s2;
               s4 \<leftarrow>
                 (if flag = TO_IPC_FLAG_FIFO then
                    Some (links_upd (t_list_insert_before sentinel (Tlist t)) s3)
                  else if flag = TO_IPC_FLAG_PRIO then
                    do {
                      p \<leftarrow> t_ipc_suspend_walk (links s3) (threads s3) sentinel
                             (current_priority (threads s3 t)) sentinel;
                      Some (links_upd (t_list_insert_before p (Tlist t)) s3)
                    }
                  else Some (links_upd (t_list_insert_before sentinel (Tlist t)) s3));
               Some (T_OK, t_irq_enable level s4)
             })"

text \<open>
  The block ``wake one waiting thread'' that \<^verbatim>\<open>t_sema_send\<close>, \<^verbatim>\<open>t_mutex_send_base\<close>,
  \<^verbatim>\<open>t_queue_send\<close> and \<^verbatim>\<open>t_queue_recv\<close> each contain: when the wait list is not empty,
  its head is detached, marked READY and inserted into the scheduler. The boolean is
  whether a thread was woken (\<^verbatim>\<open>need_schedule\<close>).
\<close>

definition wake_one_waiter :: "nat \<Rightarrow> kernel \<Rightarrow> (bool \<times> kernel) option" where
  "wake_one_waiter i s =
     (if \<not> t_list_isempty (WaitHead i) (links s) then
        do {
          th \<leftarrow> thread_entry (lnext (links s) (WaitHead i));
          let s1 = links_upd (t_list_delete (Tlist th)) s;
          let s2 = thread_upd th (\<lambda>x. x\<lparr>status := TO_THREAD_READY\<rparr>) s1;
          s3 \<leftarrow> t_sched_insert_thread (Some th) s2;
          Some (True, s3)
        }
      else Some (False, s))"

text \<open>
  The block that arms the caller's timer before it blocks, run when the timeout is
  positive as a \<^verbatim>\<open>t_int32_t\<close> and is not \<^verbatim>\<open>TO_WAITING_FOREVER\<close>.
\<close>

definition arm_timeout :: "nat \<Rightarrow> t_uint32_t \<Rightarrow> kernel \<Rightarrow> kernel option" where
  "arm_timeout cur timeout s =
     (if 0 < sint timeout \<and> timeout \<noteq> TO_WAITING_FOREVER then
        do {
          (r1, a1, s1) \<leftarrow> t_timer_ctrl (Some (ThreadTimer cur)) TO_TIMER_SET_TIME (Some timeout) s;
          (r2, s2) \<leftarrow> t_timer_start (Some (ThreadTimer cur)) s1;
          Some s2
        }
      else Some s)"

subsection \<open>Semaphore\<close>

definition t_sema_create_static ::
  "t_uint16_t \<Rightarrow> t_uint16_t \<Rightarrow> t_uint8_t \<Rightarrow> nat option \<Rightarrow> kernel \<Rightarrow> t_status_t \<times> kernel" where
  "t_sema_create_static max_count init_count mode ipc s =
     (case ipc of
        None \<Rightarrow> (T_NULL, s)
      | Some i \<Rightarrow>
          if max_count = 0 then (T_NULL, s)
          else
            let s1 = links_upd (t_list_init (WaitHead i)) s
            in (T_OK, ipc_upd i (\<lambda>x. x\<lparr>ipc_type := IPC_SEMA, ipc_status := 1, ipc_mode := mode,
                                       ipc_length := max_count, item_size := 0, holder := None,
                                       recursive := 0, msg_waiting := init_count\<rparr>) s1))"

definition t_sema_send :: "nat option \<Rightarrow> kernel \<Rightarrow> (t_status_t \<times> kernel) option" where
  "t_sema_send ipc s =
     (case ipc of
        None \<Rightarrow> Some (T_NULL, s)
      | Some i \<Rightarrow>
          if ipc_status (ipcs s i) = 0 then Some (T_DELETED, s)
          else if ipc_type (ipcs s i) \<noteq> IPC_SEMA then Some (T_INVALID, s)
          else
            let (level, s1) = t_irq_disable s
            in if ipc_status (ipcs s1 i) = 0 then Some (T_DELETED, t_irq_enable level s1)
               else if msg_waiting (ipcs s1 i) < ipc_length (ipcs s1 i) then
                 do {
                   let s2 = ipc_upd i (\<lambda>x. x\<lparr>msg_waiting := msg_waiting x + 1\<rparr>) s1;
                   (need_schedule, s3) \<leftarrow> wake_one_waiter i s2;
                   let s4 = t_irq_enable level s3;
                   s5 \<leftarrow> (if need_schedule then t_sched_switch s4 else Some s4);
                   Some (T_OK, s5)
                 }
               else Some (T_ERR, s1))"

subsection \<open>Mutex and recursive mutex\<close>

definition t_mutex_create_static_base ::
  "t_ipc_type_t \<Rightarrow> t_uint8_t \<Rightarrow> nat option \<Rightarrow> kernel \<Rightarrow> t_status_t \<times> kernel" where
  "t_mutex_create_static_base ty mode ipc s =
     (case ipc of
        None \<Rightarrow> (T_NULL, s)
      | Some i \<Rightarrow>
          let s1 = links_upd (t_list_init (WaitHead i)) s
          in (T_OK, ipc_upd i (\<lambda>x. x\<lparr>ipc_type := ty, ipc_status := 1, ipc_mode := mode,
                                     ipc_length := 1, item_size := 0, holder := None,
                                     recursive := 0, original_prio := DUMMY_PRIORITY,
                                     msg_waiting := 1\<rparr>) s1))"

text \<open>
  \<^verbatim>\<open>t_mutex_send_base\<close>. The priority restore reads \<^verbatim>\<open>t_current_thread->current_priority\<close>
  when the saved priority is not \<^verbatim>\<open>DUMMY_PRIORITY\<close>; with a null current thread (which
  passes the owner test when the mutex has no holder) that is \<open>None\<close>.
\<close>

definition t_mutex_send_base :: "nat option \<Rightarrow> kernel \<Rightarrow> (t_status_t \<times> kernel) option" where
  "t_mutex_send_base ipc s =
     (case ipc of
        None \<Rightarrow> Some (T_NULL, s)
      | Some i \<Rightarrow>
          if ipc_status (ipcs s i) = 0 then Some (T_DELETED, s)
          else
            let (level, s1) = t_irq_disable s
            in if ipc_status (ipcs s1 i) = 0 then Some (T_DELETED, t_irq_enable level s1)
               else if t_current_thread s1 \<noteq> holder (ipcs s1 i) then
                 Some (T_ERR, t_irq_enable level s1)
               else
                 let s2 = (if ipc_type (ipcs s1 i) = IPC_RECURSIVE_MUTEX
                              \<and> 0 < recursive (ipcs s1 i)
                           then ipc_upd i (\<lambda>x. x\<lparr>recursive := recursive x - 1\<rparr>) s1
                           else s1)
                 in if ipc_type (ipcs s2 i) = IPC_RECURSIVE_MUTEX \<and> 0 < recursive (ipcs s2 i)
                    then Some (T_OK, t_irq_enable level s2)
                    else
                      do {
                        let s3 = ipc_upd i (\<lambda>x. x\<lparr>msg_waiting := 1\<rparr>) s2;
                        let s4 = ipc_upd i (\<lambda>x. x\<lparr>holder := None\<rparr>) s3;
                        s5 \<leftarrow>
                          (if original_prio (ipcs s4 i) \<noteq> DUMMY_PRIORITY then
                             (case t_current_thread s4 of
                                None \<Rightarrow> None
                              | Some cur \<Rightarrow>
                                  if current_priority (threads s4 cur) \<noteq> original_prio (ipcs s4 i)
                                  then
                                    (let (r, a, s') =
                                           t_thread_ctrl (Some cur) TO_THREAD_SET_PRIORITY
                                             (Some (ucast (original_prio (ipcs s4 i)))) s4
                                     in Some (ipc_upd i (\<lambda>x. x\<lparr>original_prio := DUMMY_PRIORITY\<rparr>) s'))
                                  else Some s4)
                           else Some s4);
                        (need_schedule, s6) \<leftarrow> wake_one_waiter i s5;
                        let s7 = t_irq_enable level s6;
                        s8 \<leftarrow> (if need_schedule then t_sched_switch s7 else Some s7);
                        Some (T_OK, s8)
                      })"

text \<open>
  \<^verbatim>\<open>t_mutex_recv_base\<close>, up to its return or its first suspension. Taking the mutex and
  blocking on it read \<^verbatim>\<open>t_current_thread->current_priority\<close>: \<open>None\<close> for a null current
  thread.
\<close>

definition t_mutex_recv_base ::
  "nat option \<Rightarrow> t_uint32_t \<Rightarrow> kernel \<Rightarrow> (call_result \<times> kernel) option" where
  "t_mutex_recv_base ipc timeout s =
     (case ipc of
        None \<Rightarrow> Some (Returned T_NULL, s)
      | Some i \<Rightarrow>
          if ipc_status (ipcs s i) = 0 then Some (Returned T_DELETED, s)
          else
            let (level, s1) = t_irq_disable s
            in if ipc_status (ipcs s1 i) = 0 then
                 Some (Returned T_DELETED, t_irq_enable level s1)
               else if msg_waiting (ipcs s1 i) = 1 then
                 (case t_current_thread s1 of
                    None \<Rightarrow> None
                  | Some cur \<Rightarrow>
                      let s2 = ipc_upd i (\<lambda>x. x\<lparr>msg_waiting := 0\<rparr>) s1;
                          s3 = ipc_upd i (\<lambda>x. x\<lparr>holder := Some cur\<rparr>) s2;
                          s4 = ipc_upd i (\<lambda>x. x\<lparr>recursive := 1\<rparr>) s3;
                          s5 = ipc_upd i
                                 (\<lambda>x. x\<lparr>original_prio := current_priority (threads s4 cur)\<rparr>) s4
                      in Some (Returned T_OK, t_irq_enable level s5))
               else if holder (ipcs s1 i) = t_current_thread s1 then
                 (let s2 = (if ipc_type (ipcs s1 i) = IPC_RECURSIVE_MUTEX
                            then ipc_upd i (\<lambda>x. x\<lparr>recursive := recursive x + 1\<rparr>) s1
                            else s1)
                  in Some (Returned T_OK, t_irq_enable level s2))
               else if timeout = 0 then Some (Returned T_ERR, t_irq_enable level s1)
               else
                 (case t_current_thread s1 of
                    None \<Rightarrow> None
                  | Some cur \<Rightarrow>
                      do {
                        let s2 =
                          (case holder (ipcs s1 i) of
                             None \<Rightarrow> s1
                           | Some h \<Rightarrow>
                               if current_priority (threads s1 cur) > current_priority (threads s1 h)
                               then
                                 (let sa = (if original_prio (ipcs s1 i) = DUMMY_PRIORITY
                                            then ipc_upd i
                                                   (\<lambda>x. x\<lparr>original_prio :=
                                                             current_priority (threads s1 h)\<rparr>) s1
                                            else s1);
                                      (r, a, sb) =
                                        t_thread_ctrl (Some h) TO_THREAD_SET_PRIORITY
                                          (Some (ucast (current_priority (threads sa cur)))) sa
                                  in sb)
                               else s1);
                        (r, s3) \<leftarrow> t_ipc_suspend (WaitHead i) (Some cur) (ipc_mode (ipcs s2 i)) s2;
                        s4 \<leftarrow> arm_timeout cur timeout s3;
                        let s5 = t_irq_enable level s4;
                        s6 \<leftarrow> t_sched_switch s5;
                        Some (Suspended, s6)
                      }))"

subsection \<open>Message queue\<close>

text \<open>
  \<^verbatim>\<open>__t_memcpy\<close> copies \<open>len\<close> bytes, lowest address first. The caller's buffer is
  passed by value as the bytes it holds, and the bytes a receive writes to the caller's
  buffer are returned: the caller's buffers do not overlap the message pool, which is
  the \<open>mem\<close> of the kernel state. \<open>t_memcpy_in\<close> is the copy into the pool,
  \<open>t_memcpy_out\<close> the copy out of it.
\<close>

primrec t_memcpy_in :: "(nat \<Rightarrow> t_uint8_t) \<Rightarrow> nat \<Rightarrow> t_uint8_t list \<Rightarrow> (nat \<Rightarrow> t_uint8_t)" where
  "t_memcpy_in m dst [] = m"
| "t_memcpy_in m dst (b # bs) = t_memcpy_in (m(dst := b)) (Suc dst) bs"

primrec t_memcpy_out :: "(nat \<Rightarrow> t_uint8_t) \<Rightarrow> nat \<Rightarrow> nat \<Rightarrow> t_uint8_t list" where
  "t_memcpy_out m src 0 = []"
| "t_memcpy_out m src (Suc len) = m src # t_memcpy_out m (Suc src) len"

text \<open>
  \<^verbatim>\<open>t_queue_create_static\<close>. In \<^verbatim>\<open>base + (item_size * queue_length)\<close> the two
  \<^verbatim>\<open>t_uint16_t\<close> operands are promoted to \<^verbatim>\<open>int\<close>, which has 32 bits on the Cortex-M4 of
  the port, and multiplied there. A product of \<open>2 ^ 31\<close> or more (from 46341 times 46341
  on) is a signed overflow, after which \<^verbatim>\<open>tail\<close> is no longer the end of the pool:
  \<open>None\<close>.
\<close>

definition t_queue_create_static ::
  "nat option \<Rightarrow> t_uint16_t \<Rightarrow> t_uint16_t \<Rightarrow> t_uint8_t \<Rightarrow> nat option \<Rightarrow> kernel
     \<Rightarrow> (t_status_t \<times> kernel) option" where
  "t_queue_create_static queue_pool queue_length isize mode ipc s =
     (case (queue_pool, ipc) of
        (Some base, Some i) \<Rightarrow>
          if isize = 0 \<or> queue_length = 0 then Some (T_NULL, s)
          else if 2 ^ 31 \<le> unat isize * unat queue_length then None
          else
            let s1 = links_upd (t_list_init (WaitHead i)) s
            in Some (T_OK, ipc_upd i (\<lambda>x. x\<lparr>ipc_type := IPC_QUEUE, ipc_status := 1, ipc_mode := mode,
                                            msg_waiting := 0, ipc_length := queue_length,
                                            item_size := isize, q_head := base,
                                            q_tail := base + unat isize * unat queue_length,
                                            write_to := base, read_from := base\<rparr>) s1)
      | _ \<Rightarrow> Some (T_NULL, s))"

text \<open>
  \<^verbatim>\<open>t_queue_send\<close>, up to its return or its first suspension. The function never calls
  \<^verbatim>\<open>t_irq_disable\<close>; the \<^verbatim>\<open>level\<close> it passes to \<^verbatim>\<open>t_irq_enable\<close> is an uninitialised
  local, here the parameter \<open>level\<close>. A caller's buffer shorter than an item is read past
  its end: \<open>None\<close>.
\<close>

definition t_queue_send ::
  "nat option \<Rightarrow> t_uint8_t list \<Rightarrow> t_uint32_t \<Rightarrow> t_uint32_t \<Rightarrow> kernel \<Rightarrow> (call_result \<times> kernel) option" where
  "t_queue_send ipc data timeout level s =
     (case ipc of
        None \<Rightarrow> Some (Returned T_NULL, s)
      | Some i \<Rightarrow>
          if ipc_status (ipcs s i) = 0 then Some (Returned T_DELETED, s)
          else if ipc_type (ipcs s i) \<noteq> IPC_QUEUE then Some (Returned T_INVALID, s)
          else if msg_waiting (ipcs s i) < ipc_length (ipcs s i) then
            (if length data < unat (item_size (ipcs s i)) then None
             else
               do {
                 let s1 = s\<lparr>mem := t_memcpy_in (mem s) (write_to (ipcs s i))
                                      (take (unat (item_size (ipcs s i))) data)\<rparr>;
                 let s2 = ipc_upd i (\<lambda>x. x\<lparr>write_to := write_to x + unat (item_size x)\<rparr>) s1;
                 let s3 = (if write_to (ipcs s2 i) \<ge> q_tail (ipcs s2 i)
                           then ipc_upd i (\<lambda>x. x\<lparr>write_to := q_head x\<rparr>) s2 else s2);
                 let s4 = ipc_upd i (\<lambda>x. x\<lparr>msg_waiting := msg_waiting x + 1\<rparr>) s3;
                 (need_schedule, s5) \<leftarrow> wake_one_waiter i s4;
                 let s6 = t_irq_enable level s5;
                 s7 \<leftarrow> (if need_schedule then t_sched_switch s6 else Some s6);
                 Some (Returned T_OK, s7)
               })
          else if timeout = 0 then Some (Returned T_ERR, t_irq_enable level s)
          else
            (case t_current_thread s of
               None \<Rightarrow> Some (Returned T_UNSUPPORTED, t_irq_enable level s)
             | Some cur \<Rightarrow>
                 do {
                   (r, s1) \<leftarrow> t_ipc_suspend (WaitHead i) (Some cur) (ipc_mode (ipcs s i)) s;
                   s2 \<leftarrow> arm_timeout cur timeout s1;
                   let s3 = t_irq_enable level s2;
                   s4 \<leftarrow> t_sched_switch s3;
                   Some (Suspended, s4)
                 }))"

text \<open>
  \<^verbatim>\<open>t_queue_recv\<close>, up to its return or its first suspension; the second component is
  the item copied to the caller's buffer, if one was. Blocking passes
  \<^verbatim>\<open>t_current_thread\<close> to \<^verbatim>\<open>t_ipc_suspend\<close>, which returns at once for a null thread, and
  then reads \<^verbatim>\<open>t_current_thread->timer\<close> when a timeout is to be armed: \<open>None\<close> there for
  a null current thread.
\<close>

definition t_queue_recv ::
  "nat option \<Rightarrow> t_uint32_t \<Rightarrow> kernel \<Rightarrow> (call_result \<times> t_uint8_t list option \<times> kernel) option" where
  "t_queue_recv ipc timeout s =
     (case ipc of
        None \<Rightarrow> Some (Returned T_NULL, None, s)
      | Some i \<Rightarrow>
          if ipc_status (ipcs s i) = 0 then Some (Returned T_DELETED, None, s)
          else if ipc_type (ipcs s i) \<noteq> IPC_QUEUE then Some (Returned T_INVALID, None, s)
          else
            let (level, s1) = t_irq_disable s
            in if ipc_status (ipcs s1 i) = 0 then
                 Some (Returned T_DELETED, None, t_irq_enable level s1)
               else if 0 < msg_waiting (ipcs s1 i) then
                 do {
                   let data = t_memcpy_out (mem s1) (read_from (ipcs s1 i))
                                (unat (item_size (ipcs s1 i)));
                   let s2 = ipc_upd i (\<lambda>x. x\<lparr>read_from := read_from x + unat (item_size x)\<rparr>) s1;
                   let s3 = (if read_from (ipcs s2 i) \<ge> q_tail (ipcs s2 i)
                             then ipc_upd i (\<lambda>x. x\<lparr>read_from := q_head x\<rparr>) s2 else s2);
                   let s4 = ipc_upd i (\<lambda>x. x\<lparr>msg_waiting := msg_waiting x - 1\<rparr>) s3;
                   (woken, s5) \<leftarrow> wake_one_waiter i s4;
                   let s6 = t_irq_enable level s5;
                   s7 \<leftarrow> t_sched_switch s6;
                   Some (Returned T_OK, Some data, s7)
                 }
               else if timeout = 0 then Some (Returned T_ERR, None, t_irq_enable level s1)
               else
                 do {
                   (r, s2) \<leftarrow> t_ipc_suspend (WaitHead i) (t_current_thread s1)
                                (ipc_mode (ipcs s1 i)) s1;
                   s3 \<leftarrow> (case t_current_thread s2 of
                            None \<Rightarrow> (if 0 < sint timeout \<and> timeout \<noteq> TO_WAITING_FOREVER
                                     then None else Some s2)
                          | Some cur \<Rightarrow> arm_timeout cur timeout s2);
                   let s4 = t_irq_enable level s3;
                   s5 \<leftarrow> t_sched_switch s4;
                   Some (Suspended, None, s5)
                 })"

section \<open>Sequences of calls\<close>

text \<open>
  The scheduler and thread operations that touch the ready lists and the ready bitmap,
  and a run of a sequence of them. A run is \<open>None\<close> as soon as one call is.
\<close>

datatype sched_op =
  InsertReady nat | RemoveReady nat | Startup nat | Rotate | SetPriority nat t_uint8_t

fun sched_step :: "sched_op \<Rightarrow> kernel \<Rightarrow> kernel option" where
  "sched_step (InsertReady t) s = t_sched_insert_thread (Some t) s"
| "sched_step (RemoveReady t) s = t_sched_remove_thread (Some t) s"
| "sched_step (Startup t) s = map_option snd (t_thread_startup (Some t) s)"
| "sched_step Rotate s = t_thread_rotate_same_prio s"
| "sched_step (SetPriority t v) s =
     Some (snd (snd (t_thread_ctrl (Some t) TO_THREAD_SET_PRIORITY (Some (ucast v)) s)))"

fun sched_run :: "sched_op list \<Rightarrow> kernel \<Rightarrow> kernel option" where
  "sched_run [] s = Some s"
| "sched_run (c # cs) s = (case sched_step c s of None \<Rightarrow> None | Some s' \<Rightarrow> sched_run cs s')"

text \<open>Sequences of \<^verbatim>\<open>t_sched_suspend\<close> and \<^verbatim>\<open>t_sched_resume\<close> calls.\<close>

datatype susp_call = Suspend | Resume

fun susp_step :: "susp_call \<Rightarrow> kernel \<Rightarrow> kernel option" where
  "susp_step Suspend s = Some (t_sched_suspend s)"
| "susp_step Resume s = t_sched_resume s"

fun susp_run :: "susp_call list \<Rightarrow> kernel \<Rightarrow> kernel option" where
  "susp_run [] s = Some s"
| "susp_run (c # cs) s = (case susp_step c s of None \<Rightarrow> None | Some s' \<Rightarrow> susp_run cs s')"

text \<open>
  \<open>n\<close> successive calls of \<^verbatim>\<open>t_mutex_recv_base\<close> on object \<open>i\<close> without waiting, each
  of which returns \<^verbatim>\<open>T_OK\<close>.
\<close>

fun mutex_recv_n :: "nat \<Rightarrow> nat \<Rightarrow> kernel \<Rightarrow> kernel option" where
  "mutex_recv_n 0 i s = Some s"
| "mutex_recv_n (Suc n) i s =
     (case t_mutex_recv_base (Some i) 0 s of
        Some (Returned T_OK, s') \<Rightarrow> mutex_recv_n n i s'
      | _ \<Rightarrow> None)"


text \<open>
  A run of \<^verbatim>\<open>t_queue_send\<close> and \<^verbatim>\<open>t_queue_recv\<close> calls on queue \<open>i\<close>. Its result lists, in
  call order, the \<^verbatim>\<open>item_size\<close> bytes of each send that returned \<^verbatim>\<open>T_OK\<close> and the item each
  receive copied out. A run is \<open>None\<close> as soon as one call is.
\<close>

datatype q_call = QSend "t_uint8_t list" t_uint32_t t_uint32_t | QRecv t_uint32_t

fun q_run :: "nat \<Rightarrow> q_call list \<Rightarrow> kernel
    \<Rightarrow> (t_uint8_t list list \<times> t_uint8_t list list \<times> kernel) option" where
  "q_run i [] s = Some ([], [], s)"
| "q_run i (QSend d timeout level # cs) s =
     (case t_queue_send (Some i) d timeout level s of
        None \<Rightarrow> None
      | Some (r, s1) \<Rightarrow>
          (case q_run i cs s1 of
             None \<Rightarrow> None
           | Some (snt, rcv, s2) \<Rightarrow>
               Some ((if r = Returned T_OK then [take (unat (item_size (ipcs s i))) d] else []) @ snt,
                     rcv, s2)))"
| "q_run i (QRecv timeout # cs) s =
     (case t_queue_recv (Some i) timeout s of
        None \<Rightarrow> None
      | Some (r, out, s1) \<Rightarrow>
          (case q_run i cs s1 of
             None \<Rightarrow> None
           | Some (snt, rcv, s2) \<Rightarrow>
               Some (snt, (case out of None \<Rightarrow> [] | Some d \<Rightarrow> [d]) @ rcv, s2)))"

section \<open>Invariants\<close>

text \<open>
  The ready-bitmap invariant: bit \<open>p\<close> of \<^verbatim>\<open>t_thread_ready_priority_group\<close> is set
  exactly when \<^verbatim>\<open>t_thread_ready_lists[p]\<close> is not empty.
\<close>

definition ready_bitmap_inv :: "kernel \<Rightarrow> bool" where
  "ready_bitmap_inv s =
     list_all (\<lambda>p. bit (t_thread_ready_priority_group s) p
                    = (\<not> t_list_isempty (ReadyHead p) (links s)))
       [0..<TO_THREAD_PRIORITY_MAX]"

text \<open>
  Well-formed list heaps. \<open>dll_ok\<close>: the two pointer fields are inverse to each other.
  \<open>chain f a xs b\<close>: following \<open>f\<close> from \<open>a\<close> visits exactly \<open>xs\<close> and then \<open>b\<close>.
  \<open>ring h l xs\<close>: the list with head \<open>l\<close> holds the nodes \<open>xs\<close>, in this order.
\<close>

definition dll_ok :: "t_list_heap \<Rightarrow> bool" where
  "dll_ok h = (\<forall>n. lprev h (lnext h n) = n \<and> lnext h (lprev h n) = n)"

primrec chain :: "(node \<Rightarrow> node) \<Rightarrow> node \<Rightarrow> node list \<Rightarrow> node \<Rightarrow> bool" where
  "chain f a [] b = (f a = b)"
| "chain f a (x # xs) b = (f a = x \<and> chain f x xs b)"

definition ring :: "t_list_heap \<Rightarrow> node \<Rightarrow> node list \<Rightarrow> bool" where
  "ring h l xs = (chain (lnext h) l xs l \<and> l \<notin> set xs \<and> distinct xs)"

definition unlinked :: "node \<Rightarrow> kernel \<Rightarrow> bool" where
  "unlinked n s = (lnext (links s) n = n \<and> lprev (links s) n = n)"

text \<open>
  \<open>ready_ring s p xs\<close>: ready list \<open>p\<close> holds the nodes \<open>xs\<close>, each the node of a thread
  whose current priority is \<open>p\<close>. \<open>masks_ok\<close>: every thread's \<^verbatim>\<open>number_mask\<close> is the bit of
  its current priority, which is below \<^verbatim>\<open>TO_THREAD_PRIORITY_MAX\<close>. \<open>sched_wf\<close>: the
  scheduler's lists are well formed.
\<close>

definition ready_ring :: "kernel \<Rightarrow> nat \<Rightarrow> node list \<Rightarrow> bool" where
  "ready_ring s p xs =
     (ring (links s) (ReadyHead p) xs
      \<and> (\<forall>n \<in> set xs. \<exists>t. n = Tlist t \<and> unat (current_priority (threads s t)) = p))"

definition masks_ok :: "kernel \<Rightarrow> bool" where
  "masks_ok s =
     (\<forall>t. unat (current_priority (threads s t)) < TO_THREAD_PRIORITY_MAX
          \<and> number_mask (threads s t) = push_bit (unat (current_priority (threads s t))) 1)"

definition sched_wf :: "kernel \<Rightarrow> bool" where
  "sched_wf s =
     (dll_ok (links s) \<and> masks_ok s \<and> (\<forall>p < TO_THREAD_PRIORITY_MAX. \<exists>xs. ready_ring s p xs))"

definition in_ready_list :: "nat \<Rightarrow> kernel \<Rightarrow> bool" where
  "in_ready_list t s =
     (\<exists>p < TO_THREAD_PRIORITY_MAX. \<exists>xs. ring (links s) (ReadyHead p) xs \<and> Tlist t \<in> set xs)"

text \<open>
  \<open>wait_ring s i ws\<close>: the wait list of IPC object \<open>i\<close> holds the nodes \<open>ws\<close>, each
  the node of a thread.
\<close>

definition wait_ring :: "kernel \<Rightarrow> nat \<Rightarrow> node list \<Rightarrow> bool" where
  "wait_ring s i ws =
     (ring (links s) (WaitHead i) ws \<and> (\<forall>n \<in> set ws. \<exists>t. n = Tlist t))"

text \<open>
  What a call must respect for the well-formedness to survive it: a node is inserted
  only when it is not linked anywhere, a thread is started with its current priority
  equal to its initial one, the priority is set (to a valid value) only while the thread is
  in no ready list, and a rotation needs a current thread.
\<close>

fun op_ok :: "sched_op \<Rightarrow> kernel \<Rightarrow> bool" where
  "op_ok (InsertReady t) s = unlinked (Tlist t) s"
| "op_ok (RemoveReady t) s = True"
| "op_ok (Startup t) s =
     (unlinked (Tlist t) s \<and> status (threads s t) \<noteq> TO_THREAD_DELETED
      \<and> current_priority (threads s t) = init_priority (threads s t))"
| "op_ok Rotate s = (t_current_thread s \<noteq> None)"
| "op_ok (SetPriority t v) s = (unat v < TO_THREAD_PRIORITY_MAX \<and> \<not> in_ready_list t s)"

fun ops_ok :: "sched_op list \<Rightarrow> kernel \<Rightarrow> bool" where
  "ops_ok [] s = True"
| "ops_ok (c # cs) s =
     (op_ok c s \<and> (case sched_step c s of None \<Rightarrow> True | Some s' \<Rightarrow> ops_ok cs s'))"

text \<open>
  Nesting of suspend and resume calls from depth \<open>d\<close>: no resume at depth 0, and the
  depth stays below \<open>2 ^ 32\<close>.
\<close>

fun nesting_ok :: "susp_call list \<Rightarrow> nat \<Rightarrow> bool" where
  "nesting_ok [] d = True"
| "nesting_ok (Suspend # cs) d = (Suc d < 2 ^ 32 \<and> nesting_ok cs (Suc d))"
| "nesting_ok (Resume # cs) d = (0 < d \<and> nesting_ok cs (d - 1))"

fun nesting_after :: "susp_call list \<Rightarrow> nat \<Rightarrow> nat" where
  "nesting_after [] d = d"
| "nesting_after (Suspend # cs) d = nesting_after cs (Suc d)"
| "nesting_after (Resume # cs) d = nesting_after cs (d - 1)"

text \<open>
  \<open>ready_heads_ok\<close>: every ready list whose bit is set has a thread's node at its head,
  which is what \<^verbatim>\<open>t_sched_switch\<close> relies on.
\<close>

definition ready_heads_ok :: "kernel \<Rightarrow> bool" where
  "ready_heads_ok s =
     list_all (\<lambda>p. bit (t_thread_ready_priority_group s) p
                    \<longrightarrow> thread_entry (lnext (links s) (ReadyHead p)) \<noteq> None)
       [0..<TO_THREAD_PRIORITY_MAX]"


text \<open>
  \<open>queue_holds s i r items\<close>: the pool of queue \<open>i\<close> is \<^verbatim>\<open>length\<close> slots of \<^verbatim>\<open>item_size\<close>
  bytes from \<^verbatim>\<open>head\<close> to \<^verbatim>\<open>tail\<close>, \<^verbatim>\<open>read_from\<close> is at slot \<open>r\<close>, the fill count is the
  number of \<open>items\<close>, which lie in the slots from \<open>r\<close> on, wrapping at \<^verbatim>\<open>tail\<close>, and
  \<^verbatim>\<open>write_to\<close> is at the slot after the last of them.
\<close>

definition queue_holds :: "kernel \<Rightarrow> nat \<Rightarrow> nat \<Rightarrow> t_uint8_t list list \<Rightarrow> bool" where
  "queue_holds s i r items =
     (let q = ipcs s i; n = unat (ipc_length q); z = unat (item_size q)
      in 0 < z \<and> r < n \<and> length items \<le> n
         \<and> unat (msg_waiting q) = length items
         \<and> q_tail q = q_head q + z * n
         \<and> read_from q = q_head q + z * r
         \<and> write_to q = q_head q + z * ((r + length items) mod n)
         \<and> (\<forall>j < length items.
               t_memcpy_out (mem s) (q_head q + z * ((r + j) mod n)) z = items ! j))"

section \<open>Concrete states\<close>

text \<open>
  \<open>boot_kernel\<close>: the state after \<^verbatim>\<open>t_sched_init\<close> and \<^verbatim>\<open>t_timer_list_init\<close>, with every
  list node initialised, no current thread, and every thread object as
  \<^verbatim>\<open>t_thread_create_static\<close> leaves it for priority 0 and a time slice of 1.
\<close>

definition boot_thread :: t_thread_t where
  "boot_thread = \<lparr>current_priority = 0, init_priority = 0, number_mask = 1, init_tick = 1,
     remaining_tick = 1, status = TO_THREAD_INIT\<rparr>"

definition boot_timer :: t_timer_t where
  "boot_timer = \<lparr>timeout_func = Some TimeoutFunction, timer_p = None, timer_init_tick = 1,
     timeout_tick = 0\<rparr>"

definition boot_ipc :: t_ipc_t where
  "boot_ipc = \<lparr>ipc_type = IPC_SEMA, holder = None, recursive = 0, original_prio = 0,
     q_head = 0, q_tail = 0, read_from = 0, write_to = 0, msg_waiting = 0, ipc_length = 0,
     item_size = 0, ipc_status = 0, ipc_mode = 0\<rparr>"

definition boot_kernel :: kernel where
  "boot_kernel = \<lparr>links = \<lparr>lnext = (\<lambda>n. n), lprev = (\<lambda>n. n)\<rparr>,
     threads = (\<lambda>t. boot_thread), timers = (\<lambda>r. boot_timer), ipcs = (\<lambda>i. boot_ipc),
     t_current_thread = None, t_cur_num_of_ready_tasks = 0, t_current_priority = 0,
     t_thread_ready_priority_group = 0, t_schedulue_suspend = 0, s_tick = 0,
     g_cur_timer_list = TimerHead 0, g_overflow_timer_list = TimerHead 1, primask = 0,
     mem = (\<lambda>a. 0), switches = []\<rparr>"

text \<open>
  \<open>two_thread_kernel\<close>: threads 0 and 1 created at priority 3 with a time slice of 5,
  thread 0 taken as the current thread; no thread is queued yet.
\<close>

definition two_thread_kernel :: kernel where
  "two_thread_kernel =
     (let s1 = snd (t_thread_create_static (Some 1) (Some 1) 64 3 5 (Some 0) boot_kernel);
          s2 = snd (t_thread_create_static (Some 1) (Some 1) 64 3 5 (Some 1) s1)
      in s2\<lparr>t_current_thread := Some 0\<rparr>)"

text \<open>
  \<open>one_ready_kernel\<close>: thread 1 of \<open>two_thread_kernel\<close> inserted into the scheduler.
  \<open>started_kernel\<close>: thread 0 of \<open>two_thread_kernel\<close> started.
\<close>

definition one_ready_kernel :: kernel where
  "one_ready_kernel =
     (case t_sched_insert_thread (Some 1) two_thread_kernel of
        Some s \<Rightarrow> s | None \<Rightarrow> two_thread_kernel)"

definition started_kernel :: kernel where
  "started_kernel =
     (case t_thread_startup (Some 0) two_thread_kernel of
        Some (r, s) \<Rightarrow> s | None \<Rightarrow> two_thread_kernel)"

text \<open>
  \<open>full_sema_kernel\<close>: semaphore 0 created with capacity 1 and initial count 1.
  \<open>held_mutex_kernel ty\<close>: mutex 0 of type \<open>ty\<close> created and acquired once by the
  current thread 0.
\<close>

definition full_sema_kernel :: kernel where
  "full_sema_kernel = snd (t_sema_create_static 1 1 TO_IPC_FLAG_FIFO (Some 0) boot_kernel)"

definition held_mutex_kernel :: "t_ipc_type_t \<Rightarrow> kernel" where
  "held_mutex_kernel ty =
     (case t_mutex_recv_base (Some 0) 0
             (snd (t_mutex_create_static_base ty TO_IPC_FLAG_FIFO (Some 0) two_thread_kernel)) of
        Some (r, s) \<Rightarrow> s | None \<Rightarrow> two_thread_kernel)"

text \<open>
  Two user timers of 5 ticks, initialised and started at tick 0 in the order 2, 3; in
  \<open>two_timer_kernel\<close> the tick counter has then reached 10.
\<close>

definition timers_ready_kernel :: kernel where
  "timers_ready_kernel =
     snd (t_timer_init (Some (UserTimer 3)) (Some (UserCallback 3)) None 5
       (snd (t_timer_init (Some (UserTimer 2)) (Some (UserCallback 2)) None 5
          (t_timer_list_init boot_kernel))))"

definition one_timer_kernel :: kernel where
  "one_timer_kernel =
     (case t_timer_start (Some (UserTimer 2)) timers_ready_kernel of
        Some (r, s) \<Rightarrow> s | None \<Rightarrow> timers_ready_kernel)"

definition two_timer_kernel :: kernel where
  "two_timer_kernel =
     (case t_timer_start (Some (UserTimer 3)) one_timer_kernel of
        Some (r, s) \<Rightarrow> s\<lparr>s_tick := 10\<rparr> | None \<Rightarrow> one_timer_kernel)"

text \<open>
  Priority inheritance. \<open>pi_threads_kernel\<close>: thread 0 of priority 3 and thread 1 of
  priority 5, thread 0 current. \<open>pi_held_kernel\<close>: mutex 0 created and acquired by thread
  0. \<open>contended_mutex_kernel\<close>: thread 1, made current, has called
  \<^verbatim>\<open>t_mutex_recv_base\<close> with \<^verbatim>\<open>TO_WAITING_FOREVER\<close>, which has raised thread 0 to priority
  5 and suspended thread 1 on the mutex; thread 0 is current again.
\<close>

definition pi_threads_kernel :: kernel where
  "pi_threads_kernel =
     (snd (t_thread_create_static (Some 1) (Some 1) 64 5 5 (Some 1)
        (snd (t_thread_create_static (Some 1) (Some 1) 64 3 5 (Some 0) boot_kernel))))
     \<lparr>t_current_thread := Some 0\<rparr>"

definition pi_held_kernel :: kernel where
  "pi_held_kernel =
     (case t_mutex_recv_base (Some 0) 0
             (snd (t_mutex_create_static_base IPC_MUTEX TO_IPC_FLAG_FIFO (Some 0) pi_threads_kernel)) of
        Some (r, s) \<Rightarrow> s | None \<Rightarrow> pi_threads_kernel)"

definition contended_mutex_kernel :: kernel where
  "contended_mutex_kernel =
     (case t_mutex_recv_base (Some 0) TO_WAITING_FOREVER (pi_held_kernel\<lparr>t_current_thread := Some 1\<rparr>) of
        Some (r, s) \<Rightarrow> s\<lparr>t_current_thread := Some 0\<rparr> | None \<Rightarrow> pi_held_kernel)"


text \<open>
  \<open>queue_kernel\<close>: a queue of two items of two bytes created on \<open>boot_kernel\<close>, with its
  pool at address 100. \<open>queue_calls\<close> fills it, takes one item, sends a third, for which
  the write cursor wraps, and takes the other two, for which the read cursor wraps.
\<close>

definition queue_kernel :: kernel where
  "queue_kernel =
     (case t_queue_create_static (Some 100) 2 2 0 (Some 0) boot_kernel of
        Some (r, s) \<Rightarrow> s | None \<Rightarrow> boot_kernel)"

definition queue_calls :: "q_call list" where
  "queue_calls = [QSend [1, 2] 0 0, QSend [3, 4] 0 0, QRecv 0, QSend [5, 6] 0 0, QRecv 0, QRecv 0]"

section \<open>Unfolding rules\<close>

lemmas heap_defs = t_list_init_def t_list_insert_after_def t_list_insert_before_def
  t_list_delete_def t_list_isempty_def set_next_def set_prev_def

lemmas upd_defs = thread_upd_def timer_upd_def ipc_upd_def links_upd_def
  t_irq_disable_def t_irq_enable_def

lemmas const_defs = TO_THREAD_PRIORITY_MAX_def TO_THREAD_READY_def TO_THREAD_SUSPEND_def
  TO_THREAD_TERMINATED_def TO_THREAD_RUNNING_def TO_THREAD_DELETED_def TO_THREAD_INIT_def
  TO_THREAD_SET_PRIORITY_def TO_THREAD_GET_STATUS_def TO_THREAD_GET_PRIORITY_def
  TO_IPC_FLAG_FIFO_def TO_IPC_FLAG_PRIO_def TO_WAITING_FOREVER_def DUMMY_PRIORITY_def
  MUTEX_RECURSIVE_COUNT_MAX_def TO_TIMER_GET_TIME_def TO_TIMER_SET_TIME_def

lemmas boot_defs = boot_kernel_def boot_thread_def boot_timer_def boot_ipc_def

section \<open>List heap lemmas\<close>

lemma lnext_delete: "lnext (t_list_delete d h) = (lnext h)(lprev h d := lnext h d, d := d)"
  by (simp add: t_list_delete_def set_next_def set_prev_def Let_def)

lemma lprev_delete: "lprev (t_list_delete d h) = (lprev h)(lnext h d := lprev h d, d := d)"
  by (simp add: t_list_delete_def set_next_def set_prev_def Let_def)

lemma lnext_insert_before:
  "lnext (t_list_insert_before l n h) = (lnext h)(lprev h l := n, n := l)"
  by (simp add: t_list_insert_before_def set_next_def set_prev_def Let_def)

lemma lprev_insert_before:
  "lprev (t_list_insert_before l n h) = (lprev h)(n := lprev h l, l := n)"
  by (simp add: t_list_insert_before_def set_next_def set_prev_def Let_def)

lemma dll_ok_next_inj: "dll_ok h \<Longrightarrow> lnext h a = lnext h b \<Longrightarrow> a = b"
  unfolding dll_ok_def by metis

lemma dll_ok_self: "dll_ok h \<Longrightarrow> lnext h n = n \<Longrightarrow> lprev h n = n"
  unfolding dll_ok_def by metis

lemma dll_ok_delete: "dll_ok h \<Longrightarrow> dll_ok (t_list_delete d h)"
  unfolding dll_ok_def lnext_delete lprev_delete
  by (intro allI conjI; simp add: fun_upd_def; metis)

lemma dll_ok_insert_before:
  "dll_ok h \<Longrightarrow> lnext h n = n \<Longrightarrow> n \<noteq> l \<Longrightarrow> dll_ok (t_list_insert_before l n h)"
  unfolding dll_ok_def lnext_insert_before lprev_insert_before
  by (intro allI conjI; simp add: fun_upd_def; metis)

lemma chain_cong:
  "(\<And>n. n \<in> set (a # xs) \<Longrightarrow> f n = g n) \<Longrightarrow> chain f a xs b = chain g a xs b"
  by (induction xs arbitrary: a) auto

lemma chain_append:
  "chain f a (xs @ y # ys) b = (chain f a xs y \<and> chain f y ys b)"
  by (induction xs arbitrary: a) auto

lemma chain_last: "chain f a xs b \<Longrightarrow> f (last (a # xs)) = b"
  by (induction xs arbitrary: a) auto

lemma chain_closed: "chain f a xs b \<Longrightarrow> m \<in> set (a # xs) \<Longrightarrow> f m \<in> set (xs @ [b])"
  by (induction xs arbitrary: a) auto

lemma chain_upd_last:
  "chain f a xs b \<Longrightarrow> distinct (a # xs) \<Longrightarrow> chain (f(last (a # xs) := c)) a xs c"
  by (induction xs arbitrary: a) auto

lemma chain_not_fix:
  "chain f a xs b \<Longrightarrow> distinct xs \<Longrightarrow> b \<notin> set xs \<Longrightarrow> m \<in> set xs \<Longrightarrow> f m \<noteq> m"
proof (induction xs arbitrary: a)
  case Nil
  then show ?case by simp
next
  case (Cons x xs)
  show ?case
  proof (cases "m = x")
    case True
    from Cons.prems have "chain f x xs b" by simp
    then have "f x \<in> set (xs @ [b])" using chain_closed [of f x xs b x] by simp
    with Cons.prems True show ?thesis by auto
  next
    case False
    with Cons show ?thesis by auto
  qed
qed

lemma ring_Nil: "ring h l [] = (lnext h l = l)"
  by (simp add: ring_def)

lemma ring_empty_iff: "ring h l xs \<Longrightarrow> (lnext h l = l) = (xs = [])"
  by (cases xs) (auto simp: ring_def)

lemma ring_head: "ring h l (x # xs) \<Longrightarrow> lnext h l = x"
  by (simp add: ring_def)


lemma chain_unique:
  "chain f a xs b \<Longrightarrow> chain f a ys b \<Longrightarrow> b \<notin> set xs \<Longrightarrow> b \<notin> set ys \<Longrightarrow> xs = ys"
proof (induction xs arbitrary: a ys)
  case Nil
  then show ?case by (cases ys) auto
next
  case (Cons x xs)
  then show ?case by (cases ys) auto
qed

lemma ring_unique: "ring h l xs \<Longrightarrow> ring h l ys \<Longrightarrow> xs = ys"
  using chain_unique by (auto simp: ring_def)

lemma ring_prev_head: "dll_ok h \<Longrightarrow> ring h l xs \<Longrightarrow> lprev h l = last (l # xs)"
proof -
  assume d: "dll_ok h" and r: "ring h l xs"
  from r have "lnext h (last (l # xs)) = l" unfolding ring_def using chain_last by metis
  then show ?thesis using d unfolding dll_ok_def by metis
qed

lemma ring_self_linked_notin:
  assumes "ring h l xs" "lnext h n = n" "n \<noteq> l"
  shows "n \<notin> set (l # xs)"
  using assms chain_not_fix [of "lnext h" l xs l n] by (auto simp: ring_def)

lemma ring_pred_notin:
  assumes d: "dll_ok h" and r: "ring h l xs" and n: "n \<notin> set (l # xs)"
  shows "lprev h n \<notin> set (l # xs)"
proof
  assume "lprev h n \<in> set (l # xs)"
  then have "lnext h (lprev h n) \<in> set (xs @ [l])"
    using r chain_closed unfolding ring_def by metis
  moreover have "lnext h (lprev h n) = n" using d by (simp add: dll_ok_def)
  ultimately show False using n by auto
qed

lemma ring_delete_other:
  assumes d: "dll_ok h" and r: "ring h l xs" and n: "n \<notin> set (l # xs)"
  shows "ring (t_list_delete n h) l xs"
proof -
  have p: "lprev h n \<notin> set (l # xs)" by (rule ring_pred_notin [OF d r n])
  have "chain (lnext (t_list_delete n h)) l xs l = chain (lnext h) l xs l"
    by (rule chain_cong) (use n p in \<open>auto simp: lnext_delete\<close>)
  then show ?thesis using r by (simp add: ring_def)
qed

lemma ring_delete_member:
  assumes d: "dll_ok h" and r: "ring h l xs" and n: "n \<in> set xs"
  shows "ring (t_list_delete n h) l (remove1 n xs)"
proof -
  from n obtain ys zs where xs: "xs = ys @ n # zs" by (auto simp: in_set_conv_decomp)
  from r xs have dist: "distinct (l # ys @ n # zs)" and c: "chain (lnext h) l (ys @ n # zs) l"
    by (auto simp: ring_def)
  from c have c1: "chain (lnext h) l ys n" and c2: "chain (lnext h) n zs l"
    by (simp_all add: chain_append)
  have pn: "lprev h n = last (l # ys)"
    using chain_last [OF c1] d unfolding dll_ok_def by metis
  have rem: "remove1 n xs = ys @ zs" using xs dist by (simp add: remove1_append)
  let ?f = "lnext (t_list_delete n h)"
  have f: "?f = (lnext h)(last (l # ys) := lnext h n, n := n)" by (simp add: lnext_delete pn)
  have lastin: "last (l # ys) \<in> set (l # ys)" by (rule last_in_set) simp
  have a1: "chain ((lnext h)(last (l # ys) := lnext h n)) l ys (lnext h n)"
    by (rule chain_upd_last [OF c1]) (use dist in auto)
  have a2: "chain ?f l ys (lnext h n)"
    unfolding f using a1 dist
    by (subst chain_cong [where g = "(lnext h)(last (l # ys) := lnext h n)"]) auto
  have goal: "chain ?f l (ys @ zs) l"
  proof (cases zs)
    case Nil
    with c2 have "lnext h n = l" by simp
    with a2 Nil show ?thesis by simp
  next
    case (Cons z zs')
    with c2 have nz: "lnext h n = z" and c3: "chain (lnext h) z zs' l" by simp_all
    have "chain ?f z zs' l = chain (lnext h) z zs' l"
      unfolding f using dist lastin Cons by (intro chain_cong) auto
    with c3 a2 nz Cons show ?thesis by (simp add: chain_append)
  qed
  show ?thesis using goal dist rem by (auto simp: ring_def)
qed

lemma ring_insert_before_tail:
  assumes d: "dll_ok h" and r: "ring h l xs" and s: "lnext h n = n" and nl: "n \<noteq> l"
  shows "ring (t_list_insert_before l n h) l (xs @ [n])"
proof -
  have nn: "n \<notin> set (l # xs)" by (rule ring_self_linked_notin [OF r s nl])
  have pl: "lprev h l = last (l # xs)" by (rule ring_prev_head [OF d r])
  from r have c: "chain (lnext h) l xs l" and dist: "distinct (l # xs)" by (auto simp: ring_def)
  let ?f = "lnext (t_list_insert_before l n h)"
  have f: "?f = (lnext h)(last (l # xs) := n, n := l)" by (simp add: lnext_insert_before pl)
  have a1: "chain ((lnext h)(last (l # xs) := n)) l xs n" by (rule chain_upd_last [OF c dist])
  have a2: "chain ?f l xs n"
    unfolding f using a1 nn
    by (subst chain_cong [where g = "(lnext h)(last (l # xs) := n)"]) auto
  have "chain ?f l (xs @ [n]) l" using a2 by (simp add: chain_append f)
  then show ?thesis using nn dist by (auto simp: ring_def)
qed

lemma ring_insert_before_other:
  assumes d: "dll_ok h" and r: "ring h m xs" and s: "lnext h n = n" and nm: "n \<noteq> m"
    and l: "l \<notin> set (m # xs)"
  shows "ring (t_list_insert_before l n h) m xs"
proof -
  have nn: "n \<notin> set (m # xs)" by (rule ring_self_linked_notin [OF r s nm])
  have pl: "lprev h l \<notin> set (m # xs)" by (rule ring_pred_notin [OF d r l])
  have "chain (lnext (t_list_insert_before l n h)) m xs m = chain (lnext h) m xs m"
    by (rule chain_cong) (use nn pl in \<open>auto simp: lnext_insert_before\<close>)
  then show ?thesis using r by (simp add: ring_def)
qed

lemma delete_self_linked: "lnext (t_list_delete n h) n = n"
  by (simp add: lnext_delete)

section \<open>Scheduler lemmas\<close>

lemma t_list_length_loop_chain:
  "chain (lnext h) p xs l \<Longrightarrow> l \<notin> set xs \<Longrightarrow>
     t_list_length_loop h l p len = Some (len + of_nat (length xs))"
proof (induction xs arbitrary: p len)
  case Nil
  then show ?case by (subst t_list_length_loop.simps) simp
next
  case (Cons x xs)
  then have "t_list_length_loop h l x (len + 1) = Some (len + 1 + of_nat (length xs))" by simp
  with Cons.prems show ?case by (subst t_list_length_loop.simps) (auto simp: add.assoc)
qed

lemma t_list_length_ring: "ring h l xs \<Longrightarrow> t_list_length l h = Some (of_nat (length xs))"
  using t_list_length_loop_chain [of h l xs l 0] by (simp add: ring_def t_list_length_def)

lemma fls_below_Suc: "fls_below n w = Suc k \<Longrightarrow> bit w k \<and> k < n"
  by (induction n) (auto split: if_splits)

lemma fls_below_le: "fls_below n w \<le> n"
  by (induction n) auto

lemma highest_ready_bit:
  assumes "\<not> of_nat TO_THREAD_PRIORITY_MAX \<le> get_highest_ready_priority g"
  shows "bit g (unat (get_highest_ready_priority g)) \<and> unat (get_highest_ready_priority g) < TO_THREAD_PRIORITY_MAX"
proof (cases "fls_below 32 g")
  case 0
  then have "get_highest_ready_priority g = 0xFFFFFFFF"
    by (simp add: get_highest_ready_priority_def t_fls_def)
  with assms show ?thesis by (simp add: TO_THREAD_PRIORITY_MAX_def)
next
  case (Suc k)
  then have b: "bit g k" and k: "k < 32" using fls_below_Suc by blast+
  have "get_highest_ready_priority g = of_nat k"
    by (simp add: get_highest_ready_priority_def t_fls_def Suc)
  moreover have "unat (of_nat k :: 32 word) = k" using k by (simp add: unat_of_nat)
  ultimately show ?thesis using b k by (simp add: TO_THREAD_PRIORITY_MAX_def)
qed

lemma ready_heads_ok_iff:
  "ready_heads_ok s =
     (\<forall>p < TO_THREAD_PRIORITY_MAX. bit (t_thread_ready_priority_group s) p
         \<longrightarrow> thread_entry (lnext (links s) (ReadyHead p)) \<noteq> None)"
  by (auto simp: ready_heads_ok_def list_all_iff)

lemma ready_bitmap_inv_iff:
  "ready_bitmap_inv s =
     (\<forall>p < TO_THREAD_PRIORITY_MAX. bit (t_thread_ready_priority_group s) p
         = (lnext (links s) (ReadyHead p) \<noteq> ReadyHead p))"
  by (auto simp: ready_bitmap_inv_def list_all_iff t_list_isempty_def)

text \<open>\<^verbatim>\<open>t_sched_switch\<close> returns when the heads are well formed, and what it leaves alone.\<close>

lemma t_sched_switch_total:
  assumes "ready_heads_ok s"
  shows "\<exists>s'. t_sched_switch s = Some s'
     \<and> links s' = links s
     \<and> t_thread_ready_priority_group s' = t_thread_ready_priority_group s
     \<and> t_schedulue_suspend s' = t_schedulue_suspend s
     \<and> t_cur_num_of_ready_tasks s' = t_cur_num_of_ready_tasks s
     \<and> ipcs s' = ipcs s \<and> mem s' = mem s \<and> timers s' = timers s \<and> primask s' = primask s
     \<and> (\<forall>t. current_priority (threads s' t) = current_priority (threads s t)
            \<and> init_priority (threads s' t) = init_priority (threads s t)
            \<and> number_mask (threads s' t) = number_mask (threads s t))"
proof (cases "t_schedulue_suspend s \<noteq> 0 \<or> of_nat TO_THREAD_PRIORITY_MAX \<le> get_highest_ready_priority (t_thread_ready_priority_group s)")
  case True
  then show ?thesis by (auto simp: t_sched_switch_def Let_def)
next
  case False
  then have "bit (t_thread_ready_priority_group s) (unat (get_highest_ready_priority (t_thread_ready_priority_group s)))"
     and "unat (get_highest_ready_priority (t_thread_ready_priority_group s)) < TO_THREAD_PRIORITY_MAX"
    using highest_ready_bit by blast+
  with assms obtain nt where
    "thread_entry (lnext (links s) (ReadyHead (unat (get_highest_ready_priority (t_thread_ready_priority_group s))))) = Some nt"
    by (auto simp: ready_heads_ok_iff)
  with False show ?thesis
    by (auto simp: t_sched_switch_def Let_def thread_upd_def t_normal_switch_task_def split: option.splits)
qed

lemma ready_ring_cong:
  "links s' = links s \<Longrightarrow> (\<And>t. current_priority (threads s' t) = current_priority (threads s t))
     \<Longrightarrow> ready_ring s' p xs = ready_ring s p xs"
  by (simp add: ready_ring_def)

lemma sched_wf_cong:
  assumes "links s' = links s"
    and "\<And>t. current_priority (threads s' t) = current_priority (threads s t)"
    and "\<And>t. number_mask (threads s' t) = number_mask (threads s t)"
  shows "sched_wf s' = sched_wf s"
  using assms by (simp add: sched_wf_def masks_ok_def ready_ring_def)

lemma ready_bitmap_inv_cong:
  "links s' = links s \<Longrightarrow> t_thread_ready_priority_group s' = t_thread_ready_priority_group s
     \<Longrightarrow> ready_bitmap_inv s' = ready_bitmap_inv s"
  by (simp add: ready_bitmap_inv_def)

lemma ready_ring_nonempty:
  "ready_ring s p xs \<Longrightarrow> (lnext (links s) (ReadyHead p) \<noteq> ReadyHead p) = (xs \<noteq> [])"
  using ring_empty_iff [of "links s" "ReadyHead p" xs] by (auto simp: ready_ring_def)

lemma sched_wf_heads:
  assumes wf: "sched_wf s" and inv: "ready_bitmap_inv s"
  shows "ready_heads_ok s"
  unfolding ready_heads_ok_iff
proof (intro allI impI)
  fix p assume p: "p < TO_THREAD_PRIORITY_MAX" and b: "bit (t_thread_ready_priority_group s) p"
  from wf p obtain xs where r: "ready_ring s p xs" by (auto simp: sched_wf_def)
  from inv p b have "lnext (links s) (ReadyHead p) \<noteq> ReadyHead p"
    by (simp add: ready_bitmap_inv_iff)
  with r have "xs \<noteq> []" by (simp add: ready_ring_nonempty)
  then obtain x ys where xs: "xs = x # ys" by (cases xs) auto
  with r have "lnext (links s) (ReadyHead p) = x" and "\<exists>t. x = Tlist t"
    by (auto simp: ready_ring_def ring_def)
  then show "thread_entry (lnext (links s) (ReadyHead p)) \<noteq> None" by auto
qed

lemma bit_or_mask:
  "q < 32 \<Longrightarrow> bit ((g :: 32 word) OR push_bit p 1) q = (bit g q \<or> q = p)"
  by (auto simp: bit_simps)

lemma bit_and_not_mask:
  "q < 32 \<Longrightarrow> bit ((g :: 32 word) AND NOT (push_bit p 1)) q = (bit g q \<and> q \<noteq> p)"
  by (auto simp: bit_simps)

text \<open>Insertion of an unlinked thread node at the tail of its ready list.\<close>

lemma insert_core:
  assumes wf: "sched_wf s" and inv: "ready_bitmap_inv s"
    and un: "lnext (links s) (Tlist t) = Tlist t"
    and p: "p = unat (current_priority (threads s t))"
    and l: "links s' = t_list_insert_before (ReadyHead p) (Tlist t) (links s)"
    and g: "t_thread_ready_priority_group s' = t_thread_ready_priority_group s OR number_mask (threads s t)"
    and cp: "\<And>u. current_priority (threads s' u) = current_priority (threads s u)"
    and nm: "\<And>u. number_mask (threads s' u) = number_mask (threads s u)"
  shows "sched_wf s' \<and> ready_bitmap_inv s'"
proof -
  from wf have d: "dll_ok (links s)" and m: "masks_ok s"
    and rings: "\<And>q. q < TO_THREAD_PRIORITY_MAX \<Longrightarrow> \<exists>xs. ready_ring s q xs"
    by (auto simp: sched_wf_def)
  from m p have p32: "p < 32" and mask: "number_mask (threads s t) = push_bit p 1"
    by (auto simp: masks_ok_def TO_THREAD_PRIORITY_MAX_def)
  have d': "dll_ok (links s')" unfolding l by (rule dll_ok_insert_before [OF d un]) simp
  have m': "masks_ok s'" using m cp nm by (simp add: masks_ok_def)
  have r': "\<exists>ys. ready_ring s' q ys \<and> (ys \<noteq> []) = (q = p \<or> lnext (links s) (ReadyHead q) \<noteq> ReadyHead q)"
    if q: "q < TO_THREAD_PRIORITY_MAX" for q
  proof -
    from rings [OF q] obtain xs where r: "ready_ring s q xs" by blast
    then have rg: "ring (links s) (ReadyHead q) xs"
      and pr: "\<forall>n \<in> set xs. \<exists>u. n = Tlist u \<and> unat (current_priority (threads s u)) = q"
      by (auto simp: ready_ring_def)
    show ?thesis
    proof (cases "q = p")
      case True
      have "ring (links s') (ReadyHead p) (xs @ [Tlist t])"
        unfolding l using ring_insert_before_tail [OF d _ un] rg True by simp
      then have "ready_ring s' q (xs @ [Tlist t])"
        using pr p True cp by (auto simp: ready_ring_def)
      then show ?thesis using True by auto
    next
      case False
      have "ReadyHead p \<notin> set (ReadyHead q # xs)" using pr False by auto
      then have "ring (links s') (ReadyHead q) xs"
        unfolding l using ring_insert_before_other [OF d rg un] by simp
      then have "ready_ring s' q xs" using pr cp by (auto simp: ready_ring_def)
      then show ?thesis using False ready_ring_nonempty [OF r] by auto
    qed
  qed
  have wf': "sched_wf s'" using d' m' r' by (auto simp: sched_wf_def)
  have "bit (t_thread_ready_priority_group s') q = (lnext (links s') (ReadyHead q) \<noteq> ReadyHead q)"
    if q: "q < TO_THREAD_PRIORITY_MAX" for q
  proof -
    from r' [OF q] obtain ys where ys: "ready_ring s' q ys"
      and ne: "(ys \<noteq> []) = (q = p \<or> lnext (links s) (ReadyHead q) \<noteq> ReadyHead q)" by blast
    have "bit (t_thread_ready_priority_group s') q
            = (bit (t_thread_ready_priority_group s) q \<or> q = p)"
      unfolding g mask by (rule bit_or_mask) (use q in \<open>simp add: TO_THREAD_PRIORITY_MAX_def\<close>)
    also have "\<dots> = (q = p \<or> lnext (links s) (ReadyHead q) \<noteq> ReadyHead q)"
      using inv q by (auto simp: ready_bitmap_inv_iff)
    finally show ?thesis using ne ready_ring_nonempty [OF ys] by simp
  qed
  then show ?thesis using wf' by (simp add: ready_bitmap_inv_iff)
qed

text \<open>Deletion of a thread node from whatever list it is in.\<close>

lemma delete_core:
  assumes wf: "sched_wf s"
    and l: "links s' = t_list_delete (Tlist t) (links s)"
    and cp: "\<And>u. current_priority (threads s' u) = current_priority (threads s u)"
    and nm: "\<And>u. number_mask (threads s' u) = number_mask (threads s u)"
  shows "sched_wf s'"
    and "\<And>q xs. ready_ring s q xs \<Longrightarrow> ready_ring s' q (remove1 (Tlist t) xs)"
proof -
  from wf have d: "dll_ok (links s)" and m: "masks_ok s"
    and rings: "\<And>q. q < TO_THREAD_PRIORITY_MAX \<Longrightarrow> \<exists>xs. ready_ring s q xs"
    by (auto simp: sched_wf_def)
  show r': "ready_ring s' q (remove1 (Tlist t) xs)" if r: "ready_ring s q xs" for q xs
  proof -
    from r have rg: "ring (links s) (ReadyHead q) xs"
      and pr: "\<forall>n \<in> set xs. \<exists>u. n = Tlist u \<and> unat (current_priority (threads s u)) = q"
      by (auto simp: ready_ring_def)
    have "ring (links s') (ReadyHead q) (remove1 (Tlist t) xs)"
    proof (cases "Tlist t \<in> set xs")
      case True
      then show ?thesis unfolding l by (rule ring_delete_member [OF d rg])
    next
      case False
      then have "Tlist t \<notin> set (ReadyHead q # xs)" by simp
      from ring_delete_other [OF d rg this] False show ?thesis
        unfolding l by (simp add: remove1_idem)
    qed
    moreover have "set (remove1 (Tlist t) xs) \<subseteq> set xs" by (rule set_remove1_subset)
    ultimately show ?thesis using pr cp by (auto simp: ready_ring_def)
  qed
  have "dll_ok (links s')" unfolding l by (rule dll_ok_delete [OF d])
  moreover have "masks_ok s'" using m cp nm by (simp add: masks_ok_def)
  ultimately show "sched_wf s'" using rings r' by (fastforce simp: sched_wf_def)
qed

lemma masks_okD:
  "masks_ok s \<Longrightarrow> unat (current_priority (threads s t)) < 32
     \<and> number_mask (threads s t) = push_bit (unat (current_priority (threads s t))) 1"
  by (simp add: masks_ok_def TO_THREAD_PRIORITY_MAX_def)

lemma t_sched_insert_thread_inv:
  assumes wf: "sched_wf s" and inv: "ready_bitmap_inv s"
    and un: "lnext (links s) (Tlist t) = Tlist t"
  shows "\<exists>s'. t_sched_insert_thread (Some t) s = Some s' \<and> sched_wf s' \<and> ready_bitmap_inv s'
     \<and> threads s' = threads s \<and> ipcs s' = ipcs s \<and> mem s' = mem s \<and> timers s' = timers s
     \<and> primask s' = primask s \<and> t_schedulue_suspend s' = t_schedulue_suspend s
     \<and> t_current_thread s' = t_current_thread s
     \<and> links s' = t_list_insert_before (ReadyHead (unat (current_priority (threads s t)))) (Tlist t) (links s)"
proof -
  let ?p = "unat (current_priority (threads s t))"
  from wf have p: "?p < 32" using masks_okD by (auto simp: sched_wf_def)
  define s' where "s' = s\<lparr>links := t_list_insert_before (ReadyHead ?p) (Tlist t) (links s),
     t_thread_ready_priority_group := t_thread_ready_priority_group s OR number_mask (threads s t),
     t_cur_num_of_ready_tasks := t_cur_num_of_ready_tasks s + 1\<rparr>"
  have e: "t_sched_insert_thread (Some t) s = Some s'"
    using p by (simp add: t_sched_insert_thread_def s'_def t_irq_disable_def t_irq_enable_def
        links_upd_def Let_def TO_THREAD_PRIORITY_MAX_def)
  have "sched_wf s' \<and> ready_bitmap_inv s'"
    by (rule insert_core [OF wf inv un refl]) (simp_all add: s'_def)
  with e show ?thesis by (simp add: s'_def)
qed

lemma t_sched_remove_thread_inv:
  assumes wf: "sched_wf s" and inv: "ready_bitmap_inv s"
  shows "\<exists>s'. t_sched_remove_thread (Some t) s = Some s' \<and> sched_wf s' \<and> ready_bitmap_inv s'
     \<and> threads s' = threads s \<and> ipcs s' = ipcs s \<and> mem s' = mem s \<and> timers s' = timers s
     \<and> primask s' = primask s \<and> t_schedulue_suspend s' = t_schedulue_suspend s
     \<and> t_current_thread s' = t_current_thread s
     \<and> links s' = t_list_delete (Tlist t) (links s)"
proof -
  let ?p = "unat (current_priority (threads s t))"
  let ?g = "t_thread_ready_priority_group s"
  from wf have p: "?p < 32" and mask: "number_mask (threads s t) = push_bit ?p 1"
    using masks_okD by (auto simp: sched_wf_def)
  define h' where "h' = t_list_delete (Tlist t) (links s)"
  define g' where "g' = (if lnext h' (ReadyHead ?p) = ReadyHead ?p then ?g AND NOT (push_bit ?p 1) else ?g)"
  define s' where "s' = s\<lparr>links := h', t_thread_ready_priority_group := g',
     t_cur_num_of_ready_tasks := t_cur_num_of_ready_tasks s - 1\<rparr>"
  have e: "t_sched_remove_thread (Some t) s = Some s'"
    using p by (simp add: t_sched_remove_thread_def s'_def g'_def h'_def t_irq_disable_def
        t_irq_enable_def links_upd_def Let_def TO_THREAD_PRIORITY_MAX_def t_list_isempty_def mask)
  have dc: "sched_wf s'"
    "\<And>q xs. ready_ring s q xs \<Longrightarrow> ready_ring s' q (remove1 (Tlist t) xs)"
    by (rule delete_core [OF wf, of s' t]; simp add: s'_def h'_def)+
  have "bit g' q = (lnext h' (ReadyHead q) \<noteq> ReadyHead q)" if q: "q < TO_THREAD_PRIORITY_MAX" for q
  proof -
    from wf q obtain xs where r: "ready_ring s q xs" by (auto simp: sched_wf_def)
    have r': "ready_ring s' q (remove1 (Tlist t) xs)" by (rule dc(2) [OF r])
    have b: "bit ?g q = (xs \<noteq> [])"
      using inv q ready_ring_nonempty [OF r] by (simp add: ready_bitmap_inv_iff)
    have n': "(lnext h' (ReadyHead q) \<noteq> ReadyHead q) = (remove1 (Tlist t) xs \<noteq> [])"
      using ready_ring_nonempty [OF r'] by (simp add: s'_def)
    show ?thesis
    proof (cases "q = ?p")
      case True
      show ?thesis
      proof (cases "lnext h' (ReadyHead ?p) = ReadyHead ?p")
        case e: True
        have "bit (?g AND NOT (push_bit ?p 1)) q = (bit ?g q \<and> q \<noteq> ?p)"
          by (rule bit_and_not_mask) (use q in \<open>simp add: TO_THREAD_PRIORITY_MAX_def\<close>)
        moreover have "g' = ?g AND NOT (push_bit ?p 1)" using e by (simp only: g'_def simp_thms if_True)
        ultimately have "bit g' q = (bit ?g q \<and> q \<noteq> ?p)" by (simp only:)
        then show ?thesis using True e by simp
      next
        case ne: False
        then have "remove1 (Tlist t) xs \<noteq> []" using n' True by simp
        then have "xs \<noteq> []" by auto
        then show ?thesis using ne True b by (simp add: g'_def)
      qed
    next
      case False
      have "Tlist t \<notin> set xs" using r False by (auto simp: ready_ring_def)
      then have same: "remove1 (Tlist t) xs = xs" by (simp add: remove1_idem)
      have "bit (?g AND NOT (push_bit ?p 1)) q = (bit ?g q \<and> q \<noteq> ?p)"
        by (rule bit_and_not_mask) (use q in \<open>simp add: TO_THREAD_PRIORITY_MAX_def\<close>)
      then have "bit (?g AND NOT (push_bit ?p 1)) q = bit ?g q" using False by (simp only: simp_thms)
      then have "bit g' q = bit ?g q"
        by (cases "lnext h' (ReadyHead ?p) = ReadyHead ?p") (simp_all only: g'_def if_True if_False simp_thms)
      then show ?thesis using b n' same by simp
    qed
  qed
  then have "ready_bitmap_inv s'" by (simp add: ready_bitmap_inv_iff s'_def)
  with e dc(1) show ?thesis by (simp add: s'_def h'_def)
qed

lemma t_thread_startup_inv:
  assumes wf: "sched_wf s" and inv: "ready_bitmap_inv s"
    and un: "lnext (links s) (Tlist t) = Tlist t"
    and st: "status (threads s t) \<noteq> TO_THREAD_DELETED"
    and pr: "current_priority (threads s t) = init_priority (threads s t)"
  shows "\<exists>s'. t_thread_startup (Some t) s = Some (T_OK, s') \<and> sched_wf s' \<and> ready_bitmap_inv s'"
proof -
  let ?p = "unat (current_priority (threads s t))"
  from wf have p: "?p < 32" using masks_okD by (auto simp: sched_wf_def)
  have "\<exists>s'. t_thread_startup (Some t) s = Some (T_OK, s')
      \<and> links s' = t_list_insert_before (ReadyHead ?p) (Tlist t) (links s)
      \<and> t_thread_ready_priority_group s' = t_thread_ready_priority_group s OR number_mask (threads s t)
      \<and> (\<forall>u. current_priority (threads s' u) = current_priority (threads s u))
      \<and> (\<forall>u. number_mask (threads s' u) = number_mask (threads s u))"
    using p st pr by (simp add: t_thread_startup_def t_irq_disable_def t_irq_enable_def
        links_upd_def thread_upd_def Let_def TO_THREAD_PRIORITY_MAX_def)
  then obtain s' where e: "t_thread_startup (Some t) s = Some (T_OK, s')"
    and l: "links s' = t_list_insert_before (ReadyHead ?p) (Tlist t) (links s)"
    and g: "t_thread_ready_priority_group s' = t_thread_ready_priority_group s OR number_mask (threads s t)"
    and cp: "\<And>u. current_priority (threads s' u) = current_priority (threads s u)"
    and nm: "\<And>u. number_mask (threads s' u) = number_mask (threads s u)"
    by blast
  have "sched_wf s' \<and> ready_bitmap_inv s'"
    by (rule insert_core [OF wf inv un refl l g cp nm])
  with e show ?thesis by blast
qed

lemma set_priority_inv:
  assumes wf: "sched_wf s" and inv: "ready_bitmap_inv s"
    and v: "unat (v :: 8 word) < TO_THREAD_PRIORITY_MAX" and nr: "\<not> in_ready_list t s"
    and s': "s' = snd (snd (t_thread_ctrl (Some t) TO_THREAD_SET_PRIORITY (Some (ucast v)) s))"
  shows "sched_wf s' \<and> ready_bitmap_inv s'"
proof -
  have uc: "(ucast (ucast (v :: 8 word) :: 32 word) :: 8 word) = v"
    by (simp add: ucast_up_ucast_id is_up)
  have th: "threads s' = (threads s)(t := (threads s t)\<lparr>current_priority := v,
              number_mask := push_bit (unat v) 1\<rparr>)"
    and l: "links s' = links s" and g: "t_thread_ready_priority_group s' = t_thread_ready_priority_group s"
    unfolding s' by (simp_all add: t_thread_ctrl_def thread_upd_def Let_def uc
        TO_THREAD_SET_PRIORITY_def TO_THREAD_GET_PRIORITY_def TO_THREAD_GET_STATUS_def)
  from wf have d: "dll_ok (links s)" and m: "masks_ok s"
    and rings: "\<And>q. q < TO_THREAD_PRIORITY_MAX \<Longrightarrow> \<exists>xs. ready_ring s q xs"
    by (auto simp: sched_wf_def)
  have m': "masks_ok s'" using m v by (simp add: masks_ok_def th)
  have "\<exists>xs. ready_ring s' q xs" if q: "q < TO_THREAD_PRIORITY_MAX" for q
  proof -
    from rings [OF q] obtain xs where r: "ready_ring s q xs" by blast
    then have "Tlist t \<notin> set xs" using nr q by (auto simp: in_ready_list_def ready_ring_def)
    with r have "ready_ring s' q xs" by (auto simp: ready_ring_def l th)
    then show ?thesis ..
  qed
  then have "sched_wf s'" using d m' by (simp add: sched_wf_def l)
  moreover have "ready_bitmap_inv s'" using inv by (simp add: ready_bitmap_inv_def l g)
  ultimately show ?thesis ..
qed

lemma or_mask_absorb:
  assumes "bit (g :: 32 word) p"
  shows "g OR push_bit p 1 = g"
proof (rule bit_eqI)
  fix q
  show "bit (g OR push_bit p 1) q = bit g q"
    using assms by (auto simp: bit_simps)
qed

lemma word_of_nat_gt_1:
  assumes "\<not> (of_nat n :: 32 word) \<le> 1"
  shows "2 \<le> n"
proof (rule ccontr)
  assume "\<not> 2 \<le> n"
  then have "n = 0 \<or> n = 1" by arith
  with assms show False by auto
qed

lemma t_sched_switch_inv:
  assumes wf: "sched_wf s" and inv: "ready_bitmap_inv s"
  shows "\<exists>s'. t_sched_switch s = Some s' \<and> sched_wf s' \<and> ready_bitmap_inv s'"
proof -
  from t_sched_switch_total [OF sched_wf_heads [OF wf inv]] obtain s' where
    e: "t_sched_switch s = Some s'" and l: "links s' = links s"
    and g: "t_thread_ready_priority_group s' = t_thread_ready_priority_group s"
    and th: "\<forall>t. current_priority (threads s' t) = current_priority (threads s t)
            \<and> init_priority (threads s' t) = init_priority (threads s t)
            \<and> number_mask (threads s' t) = number_mask (threads s t)"
    by blast
  have "sched_wf s' = sched_wf s" by (rule sched_wf_cong) (use l th in auto)
  moreover have "ready_bitmap_inv s' = ready_bitmap_inv s" by (rule ready_bitmap_inv_cong [OF l g])
  ultimately show ?thesis using e wf inv by simp
qed

lemma t_thread_rotate_same_prio_inv:
  assumes wf: "sched_wf s" and inv: "ready_bitmap_inv s" and cur: "t_current_thread s = Some c"
  shows "\<exists>s'. t_thread_rotate_same_prio s = Some s' \<and> sched_wf s' \<and> ready_bitmap_inv s'"
proof -
  let ?p = "unat (current_priority (threads s c))"
  let ?g = "t_thread_ready_priority_group s"
  from wf have p: "?p < 32" and mask: "number_mask (threads s c) = push_bit ?p 1"
    using masks_okD by (auto simp: sched_wf_def)
  from wf p obtain xs where r: "ready_ring s ?p xs"
    by (auto simp: sched_wf_def TO_THREAD_PRIORITY_MAX_def)
  then have len: "t_list_length (ReadyHead ?p) (links s) = Some (of_nat (length xs))"
    by (simp add: ready_ring_def t_list_length_ring)
  show ?thesis
  proof (cases "(of_nat (length xs) :: 32 word) \<le> 1")
    case True
    define s' where "s' = t_irq_enable (primask s) (s\<lparr>primask := 1\<rparr>)"
    have e: "t_thread_rotate_same_prio s = Some s'"
      using cur p len True
      by (simp add: t_thread_rotate_same_prio_def t_irq_disable_def s'_def
          TO_THREAD_PRIORITY_MAX_def Let_def)
    have "sched_wf s' = sched_wf s"
      by (rule sched_wf_cong) (simp_all add: s'_def t_irq_enable_def)
    moreover have "ready_bitmap_inv s' = ready_bitmap_inv s"
      by (rule ready_bitmap_inv_cong) (simp_all add: s'_def t_irq_enable_def)
    ultimately show ?thesis using e wf inv by simp
  next
    case False
    then have l2: "2 \<le> length xs" by (rule word_of_nat_gt_1)
    define s2 where "s2 = s\<lparr>links := t_list_delete (Tlist c) (links s)\<rparr>"
    define s3 where "s3 = s2\<lparr>links := t_list_insert_before (ReadyHead ?p) (Tlist c) (links s2)\<rparr>"
    have e: "t_thread_rotate_same_prio s = t_sched_switch (t_irq_enable (primask s) (s3\<lparr>primask := 1\<rparr>))"
      using cur p len False
      by (simp add: t_thread_rotate_same_prio_def t_irq_disable_def s3_def s2_def links_upd_def
          TO_THREAD_PRIORITY_MAX_def Let_def t_irq_enable_def)
    have dc: "sched_wf s2"
      "\<And>q ys. ready_ring s q ys \<Longrightarrow> ready_ring s2 q (remove1 (Tlist c) ys)"
      by (rule delete_core [OF wf, of s2 c]; simp add: s2_def)+
    have bp: "bit ?g ?p"
      using inv p ready_ring_nonempty [OF r] l2
      by (auto simp: ready_bitmap_inv_iff TO_THREAD_PRIORITY_MAX_def)
    have inv2: "ready_bitmap_inv s2"
      unfolding ready_bitmap_inv_iff
    proof (intro allI impI)
      fix q assume q: "q < TO_THREAD_PRIORITY_MAX"
      from wf q obtain ys where ry: "ready_ring s q ys" by (auto simp: sched_wf_def)
      have ry': "ready_ring s2 q (remove1 (Tlist c) ys)" by (rule dc(2) [OF ry])
      have "(remove1 (Tlist c) ys \<noteq> []) = (ys \<noteq> [])"
      proof (cases "q = ?p")
        case True
        with ry r have "ys = xs" by (auto simp: ready_ring_def dest: ring_unique)
        moreover have "length (remove1 (Tlist c) xs) \<ge> length xs - 1"
          by (simp add: length_remove1)
        ultimately show ?thesis using l2 by auto
      next
        case False
        then have "Tlist c \<notin> set ys" using ry by (auto simp: ready_ring_def)
        then show ?thesis by (simp add: remove1_idem)
      qed
      then show "bit (t_thread_ready_priority_group s2) q
                  = (lnext (links s2) (ReadyHead q) \<noteq> ReadyHead q)"
        using inv q ready_ring_nonempty [OF ry] ready_ring_nonempty [OF ry']
        by (simp add: ready_bitmap_inv_iff s2_def)
    qed
    have un: "lnext (links s2) (Tlist c) = Tlist c" by (simp add: s2_def delete_self_linked)
    have "sched_wf s3 \<and> ready_bitmap_inv s3"
    proof (rule insert_core [OF dc(1) inv2 un])
      show "?p = unat (current_priority (threads s2 c))" by (simp add: s2_def)
      show "links s3 = t_list_insert_before (ReadyHead ?p) (Tlist c) (links s2)" by (simp add: s3_def)
      show "t_thread_ready_priority_group s3 = t_thread_ready_priority_group s2 OR number_mask (threads s2 c)"
        using or_mask_absorb [OF bp] by (simp add: s3_def s2_def mask)
    qed (simp_all add: s3_def)
    moreover define s4 where "s4 = t_irq_enable (primask s) (s3\<lparr>primask := 1\<rparr>)"
    moreover have "sched_wf s4 = sched_wf s3"
      by (rule sched_wf_cong) (simp_all add: s4_def t_irq_enable_def)
    moreover have "ready_bitmap_inv s4 = ready_bitmap_inv s3"
      by (rule ready_bitmap_inv_cong) (simp_all add: s4_def t_irq_enable_def)
    ultimately have "sched_wf s4" "ready_bitmap_inv s4" by simp_all
    from t_sched_switch_inv [OF this] show ?thesis by (simp add: e s4_def)
  qed
qed

lemma sched_step_inv:
  assumes wf: "sched_wf s" and inv: "ready_bitmap_inv s" and ok: "op_ok c s"
  shows "\<exists>s'. sched_step c s = Some s' \<and> sched_wf s' \<and> ready_bitmap_inv s'"
proof (cases c)
  case (InsertReady t)
  with ok have "lnext (links s) (Tlist t) = Tlist t" by (simp add: unlinked_def)
  from t_sched_insert_thread_inv [OF wf inv this] InsertReady show ?thesis by auto
next
  case (RemoveReady t)
  from t_sched_remove_thread_inv [OF wf inv, of t] RemoveReady show ?thesis by auto
next
  case (Startup t)
  with ok have "lnext (links s) (Tlist t) = Tlist t" "status (threads s t) \<noteq> TO_THREAD_DELETED"
    "current_priority (threads s t) = init_priority (threads s t)" by (simp_all add: unlinked_def)
  from t_thread_startup_inv [OF wf inv this] Startup show ?thesis by auto
next
  case Rotate
  with ok obtain c' where "t_current_thread s = Some c'" by auto
  from t_thread_rotate_same_prio_inv [OF wf inv this] Rotate show ?thesis by auto
next
  case (SetPriority t v)
  with ok have "unat v < TO_THREAD_PRIORITY_MAX" "\<not> in_ready_list t s" by simp_all
  from set_priority_inv [OF wf inv this refl] SetPriority show ?thesis by simp
qed

lemma ready_heads_ok_cong:
  "links s' = links s \<Longrightarrow> t_thread_ready_priority_group s' = t_thread_ready_priority_group s
     \<Longrightarrow> ready_heads_ok s' = ready_heads_ok s"
  by (simp add: ready_heads_ok_def)

lemma susp_run_nesting:
  assumes "ready_heads_ok s" and "nesting_ok cs (unat (t_schedulue_suspend s))"
  shows "\<exists>s'. susp_run cs s = Some s' \<and> ready_heads_ok s'
           \<and> unat (t_schedulue_suspend s') = nesting_after cs (unat (t_schedulue_suspend s))"
  using assms
proof (induction cs arbitrary: s)
  case Nil
  then show ?case by simp
next
  case (Cons c cs)
  let ?d = "unat (t_schedulue_suspend s)"
  show ?case
  proof (cases c)
    case Suspend
    with Cons.prems have d: "Suc ?d < 2 ^ 32" and n: "nesting_ok cs (Suc ?d)" by simp_all
    have u: "unat (t_schedulue_suspend (t_sched_suspend s)) = Suc ?d"
      using d by (simp add: t_sched_suspend_def unat_word_ariths)
    have h: "ready_heads_ok (t_sched_suspend s)"
      using Cons.prems(1) by (simp add: t_sched_suspend_def ready_heads_ok_def)
    from Cons.IH [OF h] n u Suspend show ?thesis by simp
  next
    case Resume
    with Cons.prems have d: "0 < ?d" and n: "nesting_ok cs (?d - 1)" by simp_all
    define s1 where "s1 = s\<lparr>t_schedulue_suspend := t_schedulue_suspend s - 1\<rparr>"
    have u1: "unat (t_schedulue_suspend s1) = ?d - 1"
      using d by (simp add: s1_def unat_sub word_le_nat_alt)
    have h1: "ready_heads_ok s1" using Cons.prems(1) by (simp add: s1_def ready_heads_ok_def)
    have "\<exists>s2. t_sched_resume s = Some s2 \<and> ready_heads_ok s2
             \<and> unat (t_schedulue_suspend s2) = ?d - 1"
    proof (cases "t_schedulue_suspend s1 = 0 \<and> 0 < t_cur_num_of_ready_tasks s1")
      case True
      from t_sched_switch_total [OF h1] obtain s2 where
        e: "t_sched_switch s1 = Some s2" and l: "links s2 = links s1"
        and g: "t_thread_ready_priority_group s2 = t_thread_ready_priority_group s1"
        and c: "t_schedulue_suspend s2 = t_schedulue_suspend s1" by blast
      have "t_sched_resume s = Some s2"
        using True e by (simp add: t_sched_resume_def s1_def Let_def)
      moreover have "ready_heads_ok s2" using h1 ready_heads_ok_cong [OF l g] by simp
      ultimately show ?thesis using u1 c by auto
    next
      case False
      then have "t_sched_resume s = Some s1"
        by (auto simp: t_sched_resume_def s1_def Let_def)
      with h1 u1 show ?thesis by auto
    qed
    then obtain s2 where e: "t_sched_resume s = Some s2" and h2: "ready_heads_ok s2"
      and u2: "unat (t_schedulue_suspend s2) = ?d - 1" by blast
    from Cons.IH [OF h2] n u2 e Resume show ?thesis by simp
  qed
qed

section \<open>IPC lemmas\<close>

lemma wake_one_waiter_none:
  "wait_ring s i [] \<Longrightarrow> wake_one_waiter i s = Some (False, s)"
  by (simp add: wait_ring_def ring_def wake_one_waiter_def t_list_isempty_def)

lemma wake_one_waiter_head:
  assumes d: "dll_ok (links s)" and m: "masks_ok s" and inv: "ready_bitmap_inv s"
    and hd: "ready_heads_ok s" and wr: "wait_ring s i (Tlist w # ws)"
  shows "\<exists>s'. wake_one_waiter i s = Some (True, s')
     \<and> status (threads s' w) = TO_THREAD_READY
     \<and> lprev (links s') (ReadyHead (unat (current_priority (threads s w)))) = Tlist w
     \<and> lnext (links s') (Tlist w) = ReadyHead (unat (current_priority (threads s w)))
     \<and> bit (t_thread_ready_priority_group s') (unat (current_priority (threads s w)))
     \<and> ready_heads_ok s'
     \<and> ipcs s' = ipcs s \<and> mem s' = mem s \<and> primask s' = primask s
     \<and> switches s' = switches s
     \<and> t_schedulue_suspend s' = t_schedulue_suspend s
     \<and> t_current_thread s' = t_current_thread s
     \<and> (\<forall>t. current_priority (threads s' t) = current_priority (threads s t)
            \<and> init_priority (threads s' t) = init_priority (threads s t)
            \<and> number_mask (threads s' t) = number_mask (threads s t))"
proof -
  let ?h = "links s"
  let ?p = "unat (current_priority (threads s w))"
  let ?g = "t_thread_ready_priority_group s"
  from m have p: "?p < 32" and mask: "number_mask (threads s w) = push_bit ?p 1"
    using masks_okD by auto
  from wr have r: "ring ?h (WaitHead i) (Tlist w # ws)" and tl: "\<forall>n \<in> set ws. \<exists>t. n = Tlist t"
    by (auto simp: wait_ring_def)
  from r have nh: "lnext ?h (WaitHead i) = Tlist w" by (simp add: ring_def)
  then have pw: "lprev ?h (Tlist w) = WaitHead i" using d unfolding dll_ok_def by metis
  from r have "chain (lnext ?h) (Tlist w) ws (WaitHead i)" by (simp add: ring_def)
  then have "lnext ?h (Tlist w) \<in> set (ws @ [WaitHead i])"
    using chain_closed [of "lnext ?h" "Tlist w" ws "WaitHead i" "Tlist w"] by simp
  then have nx: "\<And>q. lnext ?h (Tlist w) \<noteq> ReadyHead q" using tl by auto
  define h1 where "h1 = t_list_delete (Tlist w) ?h"
  define h2 where "h2 = t_list_insert_before (ReadyHead ?p) (Tlist w) h1"
  have n1: "lnext h1 (ReadyHead q) = lnext ?h (ReadyHead q)" for q
    by (simp add: h1_def lnext_delete pw)
  have p1: "lprev h1 (ReadyHead q) = lprev ?h (ReadyHead q)" for q
    using nx [of q] by (auto simp: h1_def lprev_delete)
  have n2: "lnext h2 (ReadyHead q)
             = (if lprev ?h (ReadyHead ?p) = ReadyHead q then Tlist w else lnext ?h (ReadyHead q))" for q
    by (simp add: h2_def lnext_insert_before n1 p1)
  define s' where "s' = s\<lparr>links := h2,
      threads := (threads s)(w := (threads s w)\<lparr>status := TO_THREAD_READY\<rparr>),
      t_thread_ready_priority_group := ?g OR number_mask (threads s w),
      t_cur_num_of_ready_tasks := t_cur_num_of_ready_tasks s + 1\<rparr>"
  have e: "wake_one_waiter i s = Some (True, s')"
    using p nh
    by (simp add: wake_one_waiter_def t_list_isempty_def t_sched_insert_thread_def s'_def h2_def
        h1_def upd_defs Let_def TO_THREAD_PRIORITY_MAX_def)
  have bitg: "bit (?g OR push_bit ?p 1) q = (bit ?g q \<or> q = ?p)" if "q < 32" for q
    by (rule bit_or_mask [OF that])
  have heads: "ready_heads_ok s'"
    unfolding ready_heads_ok_iff
  proof (intro allI impI)
    fix q assume q: "q < TO_THREAD_PRIORITY_MAX"
      and b: "bit (t_thread_ready_priority_group s') q"
    from q have q32: "q < 32" by (simp add: TO_THREAD_PRIORITY_MAX_def)
    from b have b': "bit ?g q \<or> q = ?p" using bitg [OF q32] by (simp add: s'_def mask)
    show "thread_entry (lnext (links s') (ReadyHead q)) \<noteq> None"
    proof (cases "lprev ?h (ReadyHead ?p) = ReadyHead q")
      case True
      then show ?thesis by (simp add: s'_def n2)
    next
      case False
      have "bit ?g q"
      proof (rule ccontr)
        assume nb: "\<not> bit ?g q"
        with b' have qp: "q = ?p" by simp
        from nb inv q have "lnext ?h (ReadyHead q) = ReadyHead q"
          by (simp add: ready_bitmap_inv_iff)
        then have "lprev ?h (ReadyHead q) = ReadyHead q" by (rule dll_ok_self [OF d])
        with False qp show False by simp
      qed
      with hd q have "thread_entry (lnext ?h (ReadyHead q)) \<noteq> None"
        by (simp add: ready_heads_ok_iff)
      with False show ?thesis by (simp add: s'_def n2)
    qed
  qed
  have "bit (t_thread_ready_priority_group s') ?p"
    using bitg [OF p] by (simp add: s'_def mask)
  moreover have "lprev (links s') (ReadyHead ?p) = Tlist w"
    by (simp add: s'_def h2_def lprev_insert_before)
  moreover have "lnext (links s') (Tlist w) = ReadyHead ?p"
    by (simp add: s'_def h2_def lnext_insert_before)
  ultimately show ?thesis using e heads by (simp add: s'_def)
qed

lemma t_mutex_recv_base_acquire:
  assumes "ipc_status (ipcs s i) \<noteq> 0" and "msg_waiting (ipcs s i) = 1"
    and "t_current_thread s = Some c"
  shows "\<exists>s'. t_mutex_recv_base (Some i) timeout s = Some (Returned T_OK, s')
     \<and> holder (ipcs s' i) = Some c \<and> recursive (ipcs s' i) = 1 \<and> msg_waiting (ipcs s' i) = 0
     \<and> original_prio (ipcs s' i) = current_priority (threads s c)
     \<and> threads s' = threads s \<and> links s' = links s \<and> primask s' = primask s"
  using assms
  by (simp add: t_mutex_recv_base_def t_irq_disable_def t_irq_enable_def ipc_upd_def Let_def)

section \<open>Message queue lemmas\<close>

lemma t_memcpy_in_outside:
  "x < a \<or> a + length bs \<le> x \<Longrightarrow> t_memcpy_in m a bs x = m x"
  by (induction bs arbitrary: m a) auto

lemma t_memcpy_out_cong:
  "(\<And>x. a \<le> x \<Longrightarrow> x < a + len \<Longrightarrow> m' x = m x) \<Longrightarrow> t_memcpy_out m' a len = t_memcpy_out m a len"
  by (induction len arbitrary: a) auto

lemma t_memcpy_out_in: "t_memcpy_out (t_memcpy_in m a bs) a (length bs) = bs"
proof (induction bs arbitrary: m a)
  case Nil
  then show ?case by simp
next
  case (Cons b bs)
  have "t_memcpy_in (m(a := b)) (Suc a) bs a = (m(a := b)) a"
    by (rule t_memcpy_in_outside) simp
  with Cons show ?case by simp
qed

lemma length_t_memcpy_out: "length (t_memcpy_out m a len) = len"
  by (induction len arbitrary: a) auto

text \<open>Slots of z bytes do not overlap.\<close>
lemma slot_disjoint:
  assumes "j \<noteq> (k::nat)" and "b + z * j \<le> x" and "x < b + z * j + z"
  shows "x < b + z * k \<or> b + z * k + z \<le> x"
proof (cases "j < k")
  case True
  then have "Suc j \<le> k" by simp
  then have "z * Suc j \<le> z * k" by (rule mult_le_mono2)
  with assms show ?thesis by simp
next
  case False
  with assms have "Suc k \<le> j" by simp
  then have "z * Suc k \<le> z * j" by (rule mult_le_mono2)
  with assms show ?thesis by simp
qed

lemma mod_slots_distinct:
  assumes "j < k" and "k < (n::nat)"
  shows "(r + j) mod n \<noteq> (r + k) mod n"
proof
  assume "(r + j) mod n = (r + k) mod n"
  then have "(r + k) mod n = (r + j) mod n" by simp
  then have "n dvd (r + k) - (r + j)"
    using assms by (subst (asm) mod_eq_dvd_iff_nat) auto
  then have "n dvd k - j" by simp
  then have "n \<le> k - j" using assms by (intro dvd_imp_le) auto
  then show False using assms by simp
qed

text \<open>The calls a queue operation makes leave the queue objects and the pool alone.\<close>

lemma t_sched_switch_frame:
  "t_sched_switch s = Some s' \<Longrightarrow> ipcs s' = ipcs s \<and> mem s' = mem s"
  by (auto simp: t_sched_switch_def Let_def thread_upd_def t_normal_switch_task_def
      split: if_splits option.splits)

lemma t_sched_insert_thread_frame:
  "t_sched_insert_thread t s = Some s' \<Longrightarrow> ipcs s' = ipcs s \<and> mem s' = mem s"
  by (auto simp: t_sched_insert_thread_def Let_def upd_defs split: if_splits option.splits)

lemma t_sched_remove_thread_frame:
  "t_sched_remove_thread t s = Some s' \<Longrightarrow> ipcs s' = ipcs s \<and> mem s' = mem s"
  by (auto simp: t_sched_remove_thread_def Let_def upd_defs split: if_splits option.splits)

lemma wake_one_waiter_frame:
  "wake_one_waiter i s = Some (b, s') \<Longrightarrow> ipcs s' = ipcs s \<and> mem s' = mem s"
  by (auto simp: wake_one_waiter_def Let_def upd_defs bind_eq_Some_conv
      split: if_splits dest!: t_sched_insert_thread_frame)

lemma t_ipc_suspend_frame:
  "t_ipc_suspend n t f s = Some (r, s') \<Longrightarrow> ipcs s' = ipcs s \<and> mem s' = mem s"
  by (auto simp: t_ipc_suspend_def Let_def upd_defs bind_eq_Some_conv
      split: if_splits option.splits dest!: t_sched_remove_thread_frame)

lemma t_timer_start_frame:
  "t_timer_start t s = Some (r, s') \<Longrightarrow> ipcs s' = ipcs s \<and> mem s' = mem s"
  by (auto simp: t_timer_start_def s_timer_remove_def Let_def upd_defs bind_eq_Some_conv
      split: if_splits option.splits)

lemma arm_timeout_frame:
  "arm_timeout c timeout s = Some s' \<Longrightarrow> ipcs s' = ipcs s \<and> mem s' = mem s"
  by (auto simp: arm_timeout_def t_timer_ctrl_def Let_def upd_defs bind_eq_Some_conv
      TO_TIMER_SET_TIME_def TO_TIMER_GET_TIME_def
      split: if_splits option.splits dest!: t_timer_start_frame)

text \<open>The two outcomes of a send: nothing stored, or one item stored at the write cursor.\<close>
lemma t_queue_send_cases:
  assumes "t_queue_send (Some i) d timeout level s = Some (res, s')"
  shows "(res \<noteq> Returned T_OK \<and> ipcs s' = ipcs s \<and> mem s' = mem s)
       \<or> (res = Returned T_OK
           \<and> msg_waiting (ipcs s i) < ipc_length (ipcs s i)
           \<and> unat (item_size (ipcs s i)) \<le> length d
           \<and> mem s' = t_memcpy_in (mem s) (write_to (ipcs s i)) (take (unat (item_size (ipcs s i))) d)
           \<and> ipcs s' = (ipcs s)(i := (ipcs s i)
               \<lparr>write_to := (if q_tail (ipcs s i) \<le> write_to (ipcs s i) + unat (item_size (ipcs s i))
                              then q_head (ipcs s i)
                              else write_to (ipcs s i) + unat (item_size (ipcs s i))),
                 msg_waiting := msg_waiting (ipcs s i) + 1\<rparr>))"
  using assms
  by (auto simp: t_queue_send_def Let_def upd_defs bind_eq_Some_conv
      split: if_splits option.splits
      dest!: wake_one_waiter_frame t_sched_switch_frame t_ipc_suspend_frame arm_timeout_frame)

lemma t_queue_recv_cases:
  assumes "t_queue_recv (Some i) timeout s = Some (res, out, s')"
  shows "(res \<noteq> Returned T_OK \<and> out = None \<and> ipcs s' = ipcs s \<and> mem s' = mem s)
       \<or> (res = Returned T_OK
           \<and> 0 < msg_waiting (ipcs s i)
           \<and> out = Some (t_memcpy_out (mem s) (read_from (ipcs s i)) (unat (item_size (ipcs s i))))
           \<and> mem s' = mem s
           \<and> ipcs s' = (ipcs s)(i := (ipcs s i)
               \<lparr>read_from := (if q_tail (ipcs s i) \<le> read_from (ipcs s i) + unat (item_size (ipcs s i))
                              then q_head (ipcs s i)
                              else read_from (ipcs s i) + unat (item_size (ipcs s i))),
                 msg_waiting := msg_waiting (ipcs s i) - 1\<rparr>))"
  using assms
  by (auto simp: t_queue_recv_def Let_def upd_defs bind_eq_Some_conv
      split: if_splits option.splits
      dest!: wake_one_waiter_frame t_sched_switch_frame t_ipc_suspend_frame arm_timeout_frame)

lemma mod_succ_slot:
  assumes "m < (n::nat)"
  shows "(if n \<le> m + 1 then 0 else m + 1) = (m + 1) mod n"
  using assms by (cases "m + 1 = n") auto

lemma cursor_advance:
  assumes z: "0 < (z::nat)" and m: "m < n"
  shows "(if b + z * n \<le> b + z * m + z then b else b + z * m + z) = b + z * ((m + 1) mod n)"
proof (cases "m + 1 = n")
  case True
  then show ?thesis by (auto simp: algebra_simps)
next
  case False
  with m have lt: "m + 1 < n" by simp
  have "z * (m + 1) < z * n" by (rule mult_less_mono2 [OF lt z])
  then have "\<not> b + z * n \<le> b + z * m + z" by (simp add: algebra_simps)
  then show ?thesis using lt by (simp add: algebra_simps)
qed

lemma t_queue_send_holds:
  assumes h: "queue_holds s i r items"
    and e: "t_queue_send (Some i) d timeout level s = Some (res, s')"
  shows "queue_holds s' i r
           (if res = Returned T_OK then items @ [take (unat (item_size (ipcs s i))) d] else items)
         \<and> item_size (ipcs s' i) = item_size (ipcs s i)"
proof -
  let ?q = "ipcs s i"
  let ?n = "unat (ipc_length ?q)" and ?z = "unat (item_size ?q)" and ?k = "length items"
  let ?b = "q_head ?q"
  from h have z: "0 < ?z" and r: "r < ?n" and k: "?k \<le> ?n"
    and mw: "unat (msg_waiting ?q) = ?k" and tl: "q_tail ?q = ?b + ?z * ?n"
    and rf: "read_from ?q = ?b + ?z * r" and wt: "write_to ?q = ?b + ?z * ((r + ?k) mod ?n)"
    and it: "\<And>j. j < ?k \<Longrightarrow> t_memcpy_out (mem s) (?b + ?z * ((r + j) mod ?n)) ?z = items ! j"
    by (simp_all add: queue_holds_def Let_def)
  from t_queue_send_cases [OF e] show ?thesis
  proof (elim disjE conjE)
    assume "res \<noteq> Returned T_OK" "ipcs s' = ipcs s" "mem s' = mem s"
    with h show ?thesis by (simp add: queue_holds_def)
  next
    let ?bs = "take ?z d"
    let ?m = "(r + ?k) mod ?n"
    assume ok: "res = Returned T_OK" and lt: "msg_waiting ?q < ipc_length ?q"
      and ld: "?z \<le> length d"
      and me: "mem s' = t_memcpy_in (mem s) (write_to ?q) ?bs"
      and ip: "ipcs s' = (ipcs s)(i := ?q
               \<lparr>write_to := (if q_tail ?q \<le> write_to ?q + ?z then ?b else write_to ?q + ?z),
                 msg_waiting := msg_waiting ?q + 1\<rparr>)"
    from lt mw have kn: "?k < ?n" by (simp add: word_less_nat_alt)
    have lb: "length ?bs = ?z" using ld by simp
    have mn: "?m < ?n" using kn by simp
    have mw': "unat (msg_waiting ?q + 1) = Suc ?k"
    proof -
      have "?n < 2 ^ 16" using unsigned_less [of "ipc_length ?q"] by simp
      with kn mw have "unat (msg_waiting ?q) + 1 < 2 ^ 16" by simp
      then show ?thesis using mw by (simp add: unat_word_ariths)
    qed
    have wt': "(if q_tail ?q \<le> write_to ?q + ?z then ?b else write_to ?q + ?z)
                 = ?b + ?z * ((r + Suc ?k) mod ?n)"
    proof -
      have A: "(if ?b + ?z * ?n \<le> ?b + ?z * ?m + ?z then ?b else ?b + ?z * ?m + ?z)
              = ?b + ?z * ((?m + 1) mod ?n)"
        by (rule cursor_advance [OF z mn])
      have B: "(?m + 1) mod ?n = (r + Suc ?k) mod ?n"
        by (simp add: mod_Suc_eq)
      show ?thesis unfolding tl wt by (simp only: A B)
    qed
    have items': "t_memcpy_out (mem s') (?b + ?z * ((r + j) mod ?n)) ?z = (items @ [?bs]) ! j"
      if j: "j < Suc ?k" for j
    proof (cases "j < ?k")
      case True
      have ne: "(r + j) mod ?n \<noteq> ?m" by (rule mod_slots_distinct [OF True kn])
      have "t_memcpy_out (mem s') (?b + ?z * ((r + j) mod ?n)) ?z
              = t_memcpy_out (mem s) (?b + ?z * ((r + j) mod ?n)) ?z"
      proof (rule t_memcpy_out_cong)
        fix x assume "?b + ?z * ((r + j) mod ?n) \<le> x" "x < ?b + ?z * ((r + j) mod ?n) + ?z"
        from slot_disjoint [OF ne this]
        have "x < ?b + ?z * ?m \<or> ?b + ?z * ?m + length ?bs \<le> x" by (simp only: lb)
        then have "t_memcpy_in (mem s) (?b + ?z * ?m) ?bs x = mem s x"
          by (rule t_memcpy_in_outside)
        then show "mem s' x = mem s x" by (simp only: me wt)
      qed
      with True it show ?thesis by (simp add: nth_append)
    next
      case False
      with j have jk: "j = ?k" by simp
      have "t_memcpy_out (t_memcpy_in (mem s) (?b + ?z * ?m) ?bs) (?b + ?z * ?m) (length ?bs) = ?bs"
        by (rule t_memcpy_out_in)
      then have "t_memcpy_out (t_memcpy_in (mem s) (?b + ?z * ?m) ?bs) (?b + ?z * ?m) ?z = ?bs"
        by (simp only: lb)
      then have "t_memcpy_out (mem s') (?b + ?z * ?m) ?z = ?bs"
        by (simp only: me wt)
      then show ?thesis by (simp add: jk nth_append)
    qed
    have "queue_holds s' i r (items @ [?bs])"
      unfolding queue_holds_def Let_def
      using z r kn mw' tl rf wt' items' by (simp add: ip)
    then show ?thesis using ok by (simp add: ip)
  qed
qed

lemma t_queue_recv_holds:
  assumes h: "queue_holds s i r items"
    and e: "t_queue_recv (Some i) timeout s = Some (res, out, s')"
  shows "(out = None \<and> queue_holds s' i r items)
       \<or> (\<exists>x rest. items = x # rest \<and> out = Some x
             \<and> queue_holds s' i ((r + 1) mod unat (ipc_length (ipcs s i))) rest)"
proof -
  let ?q = "ipcs s i"
  let ?n = "unat (ipc_length ?q)" and ?z = "unat (item_size ?q)" and ?k = "length items"
  let ?b = "q_head ?q"
  from h have z: "0 < ?z" and r: "r < ?n" and k: "?k \<le> ?n"
    and mw: "unat (msg_waiting ?q) = ?k" and tl: "q_tail ?q = ?b + ?z * ?n"
    and rf: "read_from ?q = ?b + ?z * r" and wt: "write_to ?q = ?b + ?z * ((r + ?k) mod ?n)"
    and it: "\<And>j. j < ?k \<Longrightarrow> t_memcpy_out (mem s) (?b + ?z * ((r + j) mod ?n)) ?z = items ! j"
    by (simp_all add: queue_holds_def Let_def)
  from t_queue_recv_cases [OF e] show ?thesis
  proof (elim disjE conjE)
    assume "out = None" "ipcs s' = ipcs s" "mem s' = mem s"
    with h show ?thesis by (simp add: queue_holds_def)
  next
    assume pos: "0 < msg_waiting ?q"
      and out: "out = Some (t_memcpy_out (mem s) (read_from ?q) ?z)"
      and me: "mem s' = mem s"
      and ip: "ipcs s' = (ipcs s)(i := ?q
               \<lparr>read_from := (if q_tail ?q \<le> read_from ?q + ?z then ?b else read_from ?q + ?z),
                 msg_waiting := msg_waiting ?q - 1\<rparr>)"
    from pos mw have k0: "0 < ?k" by (simp add: word_less_nat_alt)
    then obtain x rest where items: "items = x # rest" by (cases items) auto
    let ?r' = "(r + 1) mod ?n"
    have x: "t_memcpy_out (mem s) (read_from ?q) ?z = x"
      using it [of 0] k0 r by (simp add: rf items)
    have mw': "unat (msg_waiting ?q - 1) = length rest"
      using pos mw items by (simp add: unat_sub word_le_nat_alt word_less_nat_alt)
    have rf': "(if q_tail ?q \<le> read_from ?q + ?z then ?b else read_from ?q + ?z) = ?b + ?z * ?r'"
      unfolding tl rf by (rule cursor_advance [OF z r])
    have r': "?r' < ?n" using r by simp
    have wt': "write_to ?q = ?b + ?z * ((?r' + length rest) mod ?n)"
    proof -
      have "(?r' + length rest) mod ?n = (r + 1 + length rest) mod ?n"
        by (simp add: mod_add_left_eq)
      then show ?thesis by (simp add: wt items)
    qed
    have items': "t_memcpy_out (mem s) (?b + ?z * ((?r' + j) mod ?n)) ?z = rest ! j"
      if j: "j < length rest" for j
    proof -
      have "(?r' + j) mod ?n = (r + Suc j) mod ?n"
        using mod_add_left_eq [of "r + 1" ?n j] by simp
      then show ?thesis using it [of "Suc j"] j by (simp add: items)
    qed
    have "queue_holds s' i ?r' rest"
      unfolding queue_holds_def Let_def
      using z r' k mw' tl rf' wt' items' items by (simp add: ip me)
    then show ?thesis using out x items by simp
  qed
qed

text \<open>
  A queue that \<^verbatim>\<open>t_queue_create_static\<close> has set up is empty and well formed; for a pool of
  \<open>2 ^ 31\<close> bytes or more the call has no defined result.
\<close>

lemma t_queue_create_static_overflow:
  "t_queue_create_static (Some base) 46341 46341 mode (Some i) s = None"
  by (simp add: t_queue_create_static_def)

lemma t_queue_create_static_holds:
  assumes "t_queue_create_static (Some base) n z mode (Some i) s = Some (T_OK, s')"
  shows "queue_holds s' i 0 []"
  using assms
  by (auto simp: t_queue_create_static_def queue_holds_def Let_def upd_defs unat_gt_0
      split: if_splits)

section \<open>Evaluation on concrete states\<close>

lemma fls_below_8: "fls_below 32 (8 :: 32 word) = 4"
  by (simp add: eval_nat_numeral)

lemmas eval_defs = t_thread_startup_def unlinked_def t_thread_rotate_same_prio_def
  t_list_length_def t_list_length_loop.simps t_sched_switch_def get_highest_ready_priority_def
  t_fls_def t_normal_switch_task_def word_le_nat_alt t_sched_insert_thread_def
  t_sched_remove_thread_def t_thread_ctrl_def upd_defs heap_defs boot_thread_def const_defs
  Let_def

lemma two_thread_kernel_fields:
  "links two_thread_kernel = \<lparr>lnext = (\<lambda>n. n), lprev = (\<lambda>n. n)\<rparr>"
  "t_thread_ready_priority_group two_thread_kernel = 0"
  "threads two_thread_kernel =
     (\<lambda>t. boot_thread)
       (0 := boot_thread\<lparr>current_priority := 3, init_priority := 3, number_mask := 8,
                          init_tick := 5, remaining_tick := 5\<rparr>,
        1 := boot_thread\<lparr>current_priority := 3, init_priority := 3, number_mask := 8,
                          init_tick := 5, remaining_tick := 5\<rparr>)"
  "primask two_thread_kernel = 0"
  "t_current_thread two_thread_kernel = Some 0"
  "t_schedulue_suspend two_thread_kernel = 0"
  "t_cur_num_of_ready_tasks two_thread_kernel = 0"
  by (auto simp: two_thread_kernel_def t_thread_create_static_def t_timer_init_def upd_defs
      heap_defs boot_defs const_defs Let_def fun_eq_iff)

lemma sched_wf_two_thread_kernel: "sched_wf two_thread_kernel"
proof -
  have "ready_ring two_thread_kernel p []" for p
    by (simp add: ready_ring_def ring_def two_thread_kernel_fields)
  then show ?thesis
    by (auto simp: sched_wf_def dll_ok_def masks_ok_def two_thread_kernel_fields boot_thread_def
        const_defs)
qed

lemma ready_bitmap_inv_two_thread_kernel: "ready_bitmap_inv two_thread_kernel"
  by (simp add: ready_bitmap_inv_iff two_thread_kernel_fields)

lemma unlinked_not_in_ready_list:
  "lnext (links s) (Tlist t) = Tlist t \<Longrightarrow> in_ready_list t s = False"
  using ring_self_linked_notin [of "links s" _ _ "Tlist t"] by (auto simp: in_ready_list_def)

lemma one_ready_kernel_fields:
  "links one_ready_kernel =
     \<lparr>lnext = (\<lambda>n. n)(ReadyHead 3 := Tlist 1, Tlist 1 := ReadyHead 3),
      lprev = (\<lambda>n. n)(Tlist 1 := ReadyHead 3, ReadyHead 3 := Tlist 1)\<rparr>"
  "t_thread_ready_priority_group one_ready_kernel = 8"
  "threads one_ready_kernel = threads two_thread_kernel"
  "primask one_ready_kernel = 0"
  "t_current_thread one_ready_kernel = Some 0"
  "t_schedulue_suspend one_ready_kernel = 0"
  "t_cur_num_of_ready_tasks one_ready_kernel = 1"
  by (simp_all add: one_ready_kernel_def two_thread_kernel_fields eval_defs)

lemma started_kernel_fields:
  "links started_kernel =
     \<lparr>lnext = (\<lambda>n. n)(ReadyHead 3 := Tlist 0, Tlist 0 := ReadyHead 3),
      lprev = (\<lambda>n. n)(Tlist 0 := ReadyHead 3, ReadyHead 3 := Tlist 0)\<rparr>"
  "threads started_kernel 0 = boot_thread\<lparr>current_priority := 3, init_priority := 3, number_mask := 8,
                          init_tick := 5, remaining_tick := 5, status := TO_THREAD_READY\<rparr>"
  by (simp_all add: started_kernel_def two_thread_kernel_fields eval_defs)

lemma bit_8_iff: "bit (8 :: 32 word) p = (p = 3)"
proof -
  have "(8 :: 32 word) = 2 ^ 3" by simp
  then show ?thesis by (simp only: bit_exp_iff) auto
qed

lemma ready_heads_ok_one_ready: "ready_heads_ok (t_sched_suspend one_ready_kernel)"
  unfolding ready_heads_ok_iff
proof (intro allI impI)
  fix p
  assume b: "bit (t_thread_ready_priority_group (t_sched_suspend one_ready_kernel)) p"
  have "t_thread_ready_priority_group (t_sched_suspend one_ready_kernel) = 8"
    by (simp add: t_sched_suspend_def one_ready_kernel_fields)
  with b have "bit (8 :: 32 word) p" by (simp only:)
  then have "p = 3" by (simp only: bit_8_iff)
  then show "thread_entry (lnext (links (t_sched_suspend one_ready_kernel)) (ReadyHead p)) \<noteq> None"
    by (simp add: t_sched_suspend_def one_ready_kernel_fields)
qed

lemma two_thread_kernel_more:
  "ipcs two_thread_kernel = (\<lambda>i. boot_ipc)" "s_tick two_thread_kernel = 0"
  "g_cur_timer_list two_thread_kernel = TimerHead 0"
  "g_overflow_timer_list two_thread_kernel = TimerHead 1"
  "mem two_thread_kernel = (\<lambda>a. 0)" "switches two_thread_kernel = []"
  by (simp_all add: two_thread_kernel_def t_thread_create_static_def t_timer_init_def upd_defs
      heap_defs boot_defs const_defs Let_def)

lemma held_mutex_kernel_fields:
  "ipcs (held_mutex_kernel ty) 0 = boot_ipc\<lparr>ipc_type := ty, holder := Some 0, recursive := 1,
      original_prio := 3, msg_waiting := 0, ipc_length := 1, ipc_status := 1, ipc_mode := 0\<rparr>"
  "t_current_thread (held_mutex_kernel ty) = Some 0"
  "threads (held_mutex_kernel ty) = threads two_thread_kernel"
  "primask (held_mutex_kernel ty) = 0"
  "links (held_mutex_kernel ty) = \<lparr>lnext = (\<lambda>n. n), lprev = (\<lambda>n. n)\<rparr>"
  "t_thread_ready_priority_group (held_mutex_kernel ty) = 0"
  by (auto simp: held_mutex_kernel_def t_mutex_create_static_base_def t_mutex_recv_base_def
      two_thread_kernel_fields two_thread_kernel_more upd_defs heap_defs boot_defs const_defs
      Let_def fun_eq_iff)

lemmas timer_defs = t_timer_list_init_def t_timer_init_def t_timer_start_def s_timer_remove_def
  t_tick_get_def t_timer_check_def run_callback_def

lemma timers_ready_kernel_fields:
  "links timers_ready_kernel = \<lparr>lnext = (\<lambda>n. n), lprev = (\<lambda>n. n)\<rparr>"
  "timers timers_ready_kernel =
     (\<lambda>r. boot_timer)
       (UserTimer 2 := \<lparr>timeout_func = Some (UserCallback 2), timer_p = None,
                         timer_init_tick = 5, timeout_tick = 0\<rparr>,
        UserTimer 3 := \<lparr>timeout_func = Some (UserCallback 3), timer_p = None,
                         timer_init_tick = 5, timeout_tick = 0\<rparr>)"
  "g_cur_timer_list timers_ready_kernel = TimerHead 0"
  "g_overflow_timer_list timers_ready_kernel = TimerHead 1"
  "s_tick timers_ready_kernel = 0" "primask timers_ready_kernel = 0"
  by (simp_all add: timers_ready_kernel_def timer_defs upd_defs heap_defs boot_defs Let_def
      fun_eq_iff split del: if_split) auto

lemma one_timer_kernel_fields:
  "links one_timer_kernel =
     \<lparr>lnext = (\<lambda>n. n)(TimerHead 0 := TimerRow (UserTimer 2), TimerRow (UserTimer 2) := TimerHead 0),
      lprev = (\<lambda>n. n)(TimerHead 0 := TimerRow (UserTimer 2), TimerRow (UserTimer 2) := TimerHead 0)\<rparr>"
  "timers one_timer_kernel =
     (\<lambda>r. boot_timer)
       (UserTimer 2 := \<lparr>timeout_func = Some (UserCallback 2), timer_p = None,
                         timer_init_tick = 5, timeout_tick = 5\<rparr>,
        UserTimer 3 := \<lparr>timeout_func = Some (UserCallback 3), timer_p = None,
                         timer_init_tick = 5, timeout_tick = 0\<rparr>)"
  "g_cur_timer_list one_timer_kernel = TimerHead 0"
  "g_overflow_timer_list one_timer_kernel = TimerHead 1"
  "s_tick one_timer_kernel = 0" "primask one_timer_kernel = 0"
  by (simp_all add: one_timer_kernel_def timers_ready_kernel_fields timer_defs
      t_timer_start_walk.simps upd_defs heap_defs Let_def fun_eq_iff
      split del: if_split) auto

lemma two_timer_kernel_fields:
  "links two_timer_kernel =
     \<lparr>lnext = (\<lambda>n. n)(TimerHead 0 := TimerRow (UserTimer 2),
                       TimerRow (UserTimer 2) := TimerRow (UserTimer 3),
                       TimerRow (UserTimer 3) := TimerHead 0),
      lprev = (\<lambda>n. n)(TimerHead 0 := TimerRow (UserTimer 3),
                       TimerRow (UserTimer 3) := TimerRow (UserTimer 2),
                       TimerRow (UserTimer 2) := TimerHead 0)\<rparr>"
  "timers two_timer_kernel =
     (\<lambda>r. boot_timer)
       (UserTimer 2 := \<lparr>timeout_func = Some (UserCallback 2), timer_p = None,
                         timer_init_tick = 5, timeout_tick = 5\<rparr>,
        UserTimer 3 := \<lparr>timeout_func = Some (UserCallback 3), timer_p = None,
                         timer_init_tick = 5, timeout_tick = 5\<rparr>)"
  "g_cur_timer_list two_timer_kernel = TimerHead 0"
  "s_tick two_timer_kernel = 10" "primask two_timer_kernel = 0"
  by (simp_all add: two_timer_kernel_def one_timer_kernel_fields timer_defs
      t_timer_start_walk.simps upd_defs heap_defs Let_def fun_eq_iff
      split del: if_split) auto

lemma pi_threads_kernel_fields:
  "links pi_threads_kernel = \<lparr>lnext = (\<lambda>n. n), lprev = (\<lambda>n. n)\<rparr>"
  "threads pi_threads_kernel =
     (\<lambda>t. boot_thread)
       (0 := boot_thread\<lparr>current_priority := 3, init_priority := 3, number_mask := 8,
                          init_tick := 5, remaining_tick := 5\<rparr>,
        1 := boot_thread\<lparr>current_priority := 5, init_priority := 5, number_mask := 32,
                          init_tick := 5, remaining_tick := 5\<rparr>)"
  "ipcs pi_threads_kernel = (\<lambda>i. boot_ipc)"
  "t_thread_ready_priority_group pi_threads_kernel = 0"
  "primask pi_threads_kernel = 0" "t_current_thread pi_threads_kernel = Some 0"
  "t_schedulue_suspend pi_threads_kernel = 0" "t_cur_num_of_ready_tasks pi_threads_kernel = 0"
  "s_tick pi_threads_kernel = 0" "switches pi_threads_kernel = []"
  by (simp_all add: pi_threads_kernel_def t_thread_create_static_def t_timer_init_def upd_defs
      heap_defs boot_defs const_defs Let_def fun_eq_iff split del: if_split) auto

lemma pi_held_kernel_fields:
  "links pi_held_kernel = \<lparr>lnext = (\<lambda>n. n), lprev = (\<lambda>n. n)\<rparr>"
  "threads pi_held_kernel = threads pi_threads_kernel"
  "ipcs pi_held_kernel =
     (\<lambda>i. boot_ipc)(0 := boot_ipc\<lparr>ipc_type := IPC_MUTEX, holder := Some 0, recursive := 1,
        original_prio := 3, msg_waiting := 0, ipc_length := 1, ipc_status := 1, ipc_mode := 0\<rparr>)"
  "t_thread_ready_priority_group pi_held_kernel = 0"
  "primask pi_held_kernel = 0" "t_current_thread pi_held_kernel = Some 0"
  "t_schedulue_suspend pi_held_kernel = 0" "t_cur_num_of_ready_tasks pi_held_kernel = 0"
  "s_tick pi_held_kernel = 0" "switches pi_held_kernel = []"
  by (simp_all add: pi_held_kernel_def pi_threads_kernel_fields t_mutex_create_static_base_def
      t_mutex_recv_base_def upd_defs heap_defs boot_defs const_defs Let_def fun_eq_iff
      split del: if_split)

lemma fls_below_0: "fls_below n (0 :: 32 word) = 0"
  by (induction n) auto

lemma contended_mutex_kernel_fields:
  "links contended_mutex_kernel =
     \<lparr>lnext = (\<lambda>n. n)(WaitHead 0 := Tlist 1, Tlist 1 := WaitHead 0),
      lprev = (\<lambda>n. n)(Tlist 1 := WaitHead 0, WaitHead 0 := Tlist 1)\<rparr>"
  "threads contended_mutex_kernel =
     (\<lambda>t. boot_thread)
       (0 := boot_thread\<lparr>current_priority := 5, init_priority := 3, number_mask := 32,
                          init_tick := 5, remaining_tick := 5\<rparr>,
        1 := boot_thread\<lparr>current_priority := 5, init_priority := 5, number_mask := 32,
                          init_tick := 5, remaining_tick := 5, status := TO_THREAD_SUSPEND\<rparr>)"
  "ipcs contended_mutex_kernel = ipcs pi_held_kernel"
  "t_thread_ready_priority_group contended_mutex_kernel = 0"
  "primask contended_mutex_kernel = 0" "t_current_thread contended_mutex_kernel = Some 0"
  "t_schedulue_suspend contended_mutex_kernel = 0"
  by (simp_all add: contended_mutex_kernel_def pi_held_kernel_fields pi_threads_kernel_fields
      t_mutex_recv_base_def t_ipc_suspend_def arm_timeout_def t_sched_remove_thread_def
      t_sched_switch_def get_highest_ready_priority_def t_fls_def fls_below_0 t_thread_ctrl_def
      upd_defs heap_defs boot_defs const_defs Let_def fun_eq_iff
      split del: if_split)

lemma t_memcpy_out_2: "t_memcpy_out m a 2 = [m a, m (Suc a)]"
  by (simp add: numeral_2_eq_2)

lemma queue_kernel_holds: "queue_holds queue_kernel 0 0 []"
  unfolding queue_kernel_def
  by (rule t_queue_create_static_holds [of 100 2 2 0 0 boot_kernel])
     (simp add: t_queue_create_static_def Let_def)

lemma queue_kernel_run:
  "\<exists>s'. q_run 0 queue_calls queue_kernel
          = Some ([[1, 2], [3, 4], [5, 6]], [[1, 2], [3, 4], [5, 6]], s')"
  by (simp add: queue_calls_def queue_kernel_def t_queue_create_static_def t_queue_send_def
      t_queue_recv_def wake_one_waiter_def t_sched_switch_def get_highest_ready_priority_def
      t_fls_def fls_below_0 upd_defs heap_defs boot_defs const_defs Let_def t_memcpy_out_2
      split del: if_split)

section \<open>C1: the ready bitmap\<close>

text \<open>
  C1, as the code has it. From a state whose scheduler lists are well formed and whose
  bitmap agrees with them, every sequence of insert-ready, remove-ready, startup, rotate
  and set-priority calls returns and keeps both, provided each call respects \<open>op_ok\<close>: a
  node is inserted or started only while it is in no list, a thread is started with its
  current priority equal to its initial one, and the priority of a thread is set, to a
  priority below \<^verbatim>\<open>TO_THREAD_PRIORITY_MAX\<close>, only while the thread is in no ready list.
  \<^verbatim>\<open>t_thread_ctrl\<close> does not move a queued thread, so for a queued thread the re-queueing
  is the caller's.
\<close>

theorem ready_bitmap_inv_preserved:
  assumes "sched_wf s" and "ready_bitmap_inv s" and "ops_ok cs s"
  shows "\<exists>s'. sched_run cs s = Some s' \<and> sched_wf s' \<and> ready_bitmap_inv s'"
  using assms
proof (induction cs arbitrary: s)
  case Nil
  then show ?case by simp
next
  case (Cons c cs)
  from Cons.prems have ok: "op_ok c s" by simp
  from sched_step_inv [OF Cons.prems(1,2) ok] obtain s1 where
    s1: "sched_step c s = Some s1" "sched_wf s1" "ready_bitmap_inv s1" by blast
  with Cons.prems have "ops_ok cs s1" by simp
  from Cons.IH [OF s1(2,3) this] s1(1) show ?case by simp
qed

text \<open>
  The theorem at a concrete run: two threads of priority 3 are started, the ready list is
  rotated, thread 0 is removed, given priority 5 while it is in no list, and inserted
  again.
\<close>

theorem ready_bitmap_inv_preserved_witness:
  "sched_wf two_thread_kernel \<and> ready_bitmap_inv two_thread_kernel
   \<and> ops_ok [Startup 0, Startup 1, Rotate, RemoveReady 0, SetPriority 0 5, InsertReady 0]
        two_thread_kernel
   \<and> (\<exists>s'. sched_run [Startup 0, Startup 1, Rotate, RemoveReady 0, SetPriority 0 5, InsertReady 0]
              two_thread_kernel = Some s'
          \<and> sched_wf s' \<and> ready_bitmap_inv s')"
proof -
  have ok: "ops_ok [Startup 0, Startup 1, Rotate, RemoveReady 0, SetPriority 0 5, InsertReady 0]
              two_thread_kernel"
    by (simp add: two_thread_kernel_fields eval_defs fls_below_8 unlinked_not_in_ready_list)
  from ready_bitmap_inv_preserved
         [OF sched_wf_two_thread_kernel ready_bitmap_inv_two_thread_kernel ok]
  show ?thesis
    using sched_wf_two_thread_kernel ready_bitmap_inv_two_thread_kernel ok by blast
qed

text \<open>
  C1 as stated fails: the priority of a thread that is linked in a ready list is changed
  and the thread is then removed. Thread 0 is inserted at priority 3, set to priority 5
  and removed; \<^verbatim>\<open>t_sched_remove_thread\<close> tests list 5 and clears bit 5, so bit 3 stays set
  while list 3 is empty.
\<close>

theorem set_priority_of_queued_thread_breaks_bitmap:
  "sched_wf two_thread_kernel \<and> ready_bitmap_inv two_thread_kernel \<and>
   (\<exists>s'. sched_run [InsertReady 0, SetPriority 0 5, RemoveReady 0] two_thread_kernel = Some s'
      \<and> bit (t_thread_ready_priority_group s') (3::nat)
      \<and> t_list_isempty (ReadyHead 3) (links s')
      \<and> \<not> ready_bitmap_inv s')"
proof -
  have "\<exists>s'. sched_run [InsertReady 0, SetPriority 0 5, RemoveReady 0] two_thread_kernel = Some s'
      \<and> bit (t_thread_ready_priority_group s') (3::nat)
      \<and> t_list_isempty (ReadyHead 3) (links s')"
    by (simp add: two_thread_kernel_fields eval_defs)
  then obtain s' where
    r: "sched_run [InsertReady 0, SetPriority 0 5, RemoveReady 0] two_thread_kernel = Some s'"
    and b: "bit (t_thread_ready_priority_group s') (3::nat)"
    and e: "t_list_isempty (ReadyHead 3) (links s')"
    by blast
  have "\<not> ready_bitmap_inv s'"
    using b e by (auto simp: ready_bitmap_inv_iff t_list_isempty_def TO_THREAD_PRIORITY_MAX_def
        intro!: exI [of _ "3::nat"])
  with r b e sched_wf_two_thread_kernel ready_bitmap_inv_two_thread_kernel show ?thesis by blast
qed

section \<open>C2: the order of timer callbacks\<close>

text \<open>
  C2 fails on the code. The current list holds timers 2 and 3, in this order, with the
  same expiry 5 (timer 2 was started first); both have expired at tick 10. The first loop of
  \<^verbatim>\<open>t_timer_check\<close> detaches 2 and then 3, each with
  \<^verbatim>\<open>t_list_insert_after(&expired_list, node)\<close>, which puts the node at the head of the
  local list; the second loop takes the head first. The callbacks run in the order 3, 2,
  the reverse of the detach order.
\<close>

theorem t_timer_check_calls_in_reverse_detach_order:
  "ring (links two_timer_kernel) (g_cur_timer_list two_timer_kernel)
     [TimerRow (UserTimer 2), TimerRow (UserTimer 3)]
   \<and> timeout_tick (timers two_timer_kernel (UserTimer 2)) \<le> s_tick two_timer_kernel
   \<and> timeout_tick (timers two_timer_kernel (UserTimer 3)) \<le> s_tick two_timer_kernel
   \<and> map_option fst (t_timer_check (\<lambda>k p s. Some s) two_timer_kernel)
       = Some [UserTimer 3, UserTimer 2]"
  by (simp add: ring_def timer_defs t_timer_check_collect.simps t_timer_check_fire.simps
      two_timer_kernel_fields upd_defs heap_defs Let_def split del: if_split)

section \<open>C4: releasing a semaphore\<close>

text \<open>
  For every valid semaphore at capacity, \<^verbatim>\<open>t_sema_send\<close> returns \<^verbatim>\<open>T_ERR\<close> and changes
  nothing but the interrupt mask, which it leaves set: the return after the capacity test
  has no \<^verbatim>\<open>t_irq_enable\<close>.
\<close>

lemma t_sema_send_at_capacity:
  assumes "ipc_status (ipcs s i) \<noteq> 0" and "ipc_type (ipcs s i) = IPC_SEMA"
    and "\<not> msg_waiting (ipcs s i) < ipc_length (ipcs s i)"
  shows "t_sema_send (Some i) s = Some (T_ERR, s\<lparr>primask := 1\<rparr>)"
  using assms by (simp add: t_sema_send_def t_irq_disable_def)

text \<open>
  C4 fails on the code in its last part. Semaphore 0 has count 1 of 1 and interrupts are
  enabled on entry; \<^verbatim>\<open>t_sema_send\<close> returns \<^verbatim>\<open>T_ERR\<close> with the count and the wait list
  unchanged and with interrupts masked.
\<close>

theorem t_sema_send_full_returns_with_irq_masked:
  "ipc_status (ipcs full_sema_kernel 0) = 1 \<and> ipc_type (ipcs full_sema_kernel 0) = IPC_SEMA
   \<and> msg_waiting (ipcs full_sema_kernel 0) = ipc_length (ipcs full_sema_kernel 0)
   \<and> primask full_sema_kernel = 0
   \<and> t_sema_send (Some 0) full_sema_kernel = Some (T_ERR, full_sema_kernel\<lparr>primask := 1\<rparr>)"
  by (simp add: full_sema_kernel_def t_sema_create_static_def t_sema_send_def upd_defs heap_defs
      boot_defs const_defs Let_def)

section \<open>C5: the message queue is first in, first out\<close>

text \<open>
  C5. Take a queue whose pool holds \<open>items\<close>, oldest first, and run any sequence of
  \<^verbatim>\<open>t_queue_send\<close> and \<^verbatim>\<open>t_queue_recv\<close> calls on it. Then the items that were in the queue
  followed by the \<^verbatim>\<open>item_size\<close> bytes of every successful send, in call order, are the
  items received, in call order, followed by the items still in the queue: every item
  comes out byte for byte as it went in and in the order of the sends, the cursors
  wrapping at \<^verbatim>\<open>tail\<close>, and no more items are received than were there or were sent. For a
  queue just created \<open>items\<close> is empty.
\<close>

theorem queue_fifo_round_trip:
  assumes "queue_holds s i r items" and "q_run i cs s = Some (snt, rcv, s')"
  shows "\<exists>r' items'. queue_holds s' i r' items' \<and> items @ snt = rcv @ items'
           \<and> length rcv \<le> length items + length snt"
  using assms
proof (induction cs arbitrary: s r items snt rcv)
  case Nil
  then show ?case by auto
next
  case (Cons c cs)
  show ?case
  proof (cases c)
    case (QSend d timeout level)
    with Cons.prems(2) obtain res s1 snt1 where
      e: "t_queue_send (Some i) d timeout level s = Some (res, s1)"
      and run: "q_run i cs s1 = Some (snt1, rcv, s')"
      and snt: "snt = (if res = Returned T_OK then [take (unat (item_size (ipcs s i))) d] else []) @ snt1"
      by (auto split: option.splits)
    let ?items1 = "if res = Returned T_OK then items @ [take (unat (item_size (ipcs s i))) d] else items"
    from t_queue_send_holds [OF Cons.prems(1) e] have h1: "queue_holds s1 i r ?items1" by simp
    from Cons.IH [OF h1 run] obtain r' items' where
      "queue_holds s' i r' items'" "?items1 @ snt1 = rcv @ items'"
      "length rcv \<le> length ?items1 + length snt1" by blast
    then show ?thesis using snt by (auto split: if_splits)
  next
    case (QRecv timeout)
    with Cons.prems(2) obtain res out s1 rcv1 where
      e: "t_queue_recv (Some i) timeout s = Some (res, out, s1)"
      and run: "q_run i cs s1 = Some (snt, rcv1, s')"
      and rcv: "rcv = (case out of None \<Rightarrow> [] | Some d \<Rightarrow> [d]) @ rcv1"
      by (auto split: option.splits)
    from t_queue_recv_holds [OF Cons.prems(1) e] show ?thesis
    proof (elim disjE conjE exE)
      assume "out = None" and h1: "queue_holds s1 i r items"
      with Cons.IH [OF h1 run] rcv show ?thesis by auto
    next
      fix x rest
      assume items: "items = x # rest" and out: "out = Some x"
        and h1: "queue_holds s1 i ((r + 1) mod unat (ipc_length (ipcs s i))) rest"
      from Cons.IH [OF h1 run] obtain r' items' where
        "queue_holds s' i r' items'" "rest @ snt = rcv1 @ items'"
        "length rcv1 \<le> length rest + length snt" by blast
      then show ?thesis using rcv out items by auto
    qed
  qed
qed

theorem queue_fifo_round_trip_witness:
  "\<exists>snt rcv s' r' items'.
     q_run 0 queue_calls queue_kernel = Some (snt, rcv, s')
     \<and> rcv = [[1, 2], [3, 4], [5, 6]]
     \<and> queue_holds s' 0 r' items' \<and> [] @ snt = rcv @ items'
     \<and> length rcv \<le> length ([] :: t_uint8_t list list) + length snt"
proof -
  from queue_kernel_run obtain s' where
    run: "q_run 0 queue_calls queue_kernel = Some ([[1, 2], [3, 4], [5, 6]], [[1, 2], [3, 4], [5, 6]], s')"
    by blast
  from queue_fifo_round_trip [OF queue_kernel_holds run] show ?thesis
    using run by blast
qed

section \<open>C6: releasing a mutex\<close>

text \<open>
  C6. Let a valid mutex or recursive mutex be owned by the calling thread with recursion
  depth 1, its saved priority \<^verbatim>\<open>original_prio\<close> (which \<open>t_mutex_recv_base_acquire\<close> shows
  to be the owner's priority at acquisition) a valid priority, in a state where the list
  pointers are mutually inverse, the masks and the ready bitmap are consistent, and the wait
  list is a ring \<open>ws\<close> of thread nodes. Then \<^verbatim>\<open>t_mutex_send_base\<close> returns \<^verbatim>\<open>T_OK\<close>; the
  owner is none, \<^verbatim>\<open>msg_waiting\<close> is 1, the releaser's current priority is the saved one and
  the interrupt mask is as on entry. If nobody waits no switch is requested; otherwise the
  head waiter is READY and at the tail of the ready list of its priority, whose bit is set,
  in the state \<open>s1\<close> on which \<^verbatim>\<open>t_sched_switch\<close> is then called.
\<close>

theorem t_mutex_send_base_outermost:
  assumes st: "ipc_status (ipcs s i) \<noteq> 0"
    and ty: "ipc_type (ipcs s i) = IPC_MUTEX \<or> ipc_type (ipcs s i) = IPC_RECURSIVE_MUTEX"
    and ho: "holder (ipcs s i) = Some c" and cu: "t_current_thread s = Some c"
    and re: "recursive (ipcs s i) = 1"
    and op: "unat (original_prio (ipcs s i)) < TO_THREAD_PRIORITY_MAX"
    and d: "dll_ok (links s)" and m: "masks_ok s" and inv: "ready_bitmap_inv s"
    and hd: "ready_heads_ok s" and wr: "wait_ring s i ws"
  shows "\<exists>s'. t_mutex_send_base (Some i) s = Some (T_OK, s')
     \<and> holder (ipcs s' i) = None \<and> msg_waiting (ipcs s' i) = 1
     \<and> current_priority (threads s' c) = original_prio (ipcs s i)
     \<and> primask s' = primask s
     \<and> (case ws of
           [] \<Rightarrow> switches s' = switches s
         | n # ns \<Rightarrow>
             (\<exists>w s1. n = Tlist w
                \<and> status (threads s1 w) = TO_THREAD_READY
                \<and> lprev (links s1) (ReadyHead (unat (current_priority (threads s1 w)))) = Tlist w
                \<and> lnext (links s1) (Tlist w) = ReadyHead (unat (current_priority (threads s1 w)))
                \<and> bit (t_thread_ready_priority_group s1) (unat (current_priority (threads s1 w)))
                \<and> t_sched_switch s1 = Some s'))"
proof -
  let ?o = "original_prio (ipcs s i)"
  from op have nd: "?o \<noteq> DUMMY_PRIORITY"
    by (auto simp: DUMMY_PRIORITY_def TO_THREAD_PRIORITY_MAX_def)
  have uc: "(ucast (ucast ?o :: 32 word) :: 8 word) = ?o" by (simp add: ucast_up_ucast_id is_up)
  define ip where "ip =
    (if ipc_type (ipcs s i) = IPC_RECURSIVE_MUTEX
     then (ipcs s i)\<lparr>recursive := 0, msg_waiting := 1, holder := None\<rparr>
     else (ipcs s i)\<lparr>msg_waiting := 1, holder := None\<rparr>)"
  define s5 where "s5 =
    (if current_priority (threads s c) \<noteq> ?o
     then s\<lparr>primask := 1,
            threads := (threads s)(c := (threads s c)\<lparr>current_priority := ?o,
                                                      number_mask := push_bit (unat ?o) 1\<rparr>),
            ipcs := (ipcs s)(i := ip\<lparr>original_prio := DUMMY_PRIORITY\<rparr>)\<rparr>
     else s\<lparr>primask := 1, ipcs := (ipcs s)(i := ip)\<rparr>)"
  have e: "t_mutex_send_base (Some i) s =
      do { (need_schedule, s6) \<leftarrow> wake_one_waiter i s5;
           let s7 = t_irq_enable (primask s) s6;
           s8 \<leftarrow> (if need_schedule then t_sched_switch s7 else Some s7);
           Some (T_OK, s8) }"
    using st ty ho cu re nd
    by (auto simp: t_mutex_send_base_def t_irq_disable_def ipc_upd_def thread_upd_def
        t_thread_ctrl_def TO_THREAD_SET_PRIORITY_def TO_THREAD_GET_PRIORITY_def
        TO_THREAD_GET_STATUS_def Let_def uc s5_def ip_def)
  have l5: "links s5 = links s" and g5: "t_thread_ready_priority_group s5 = t_thread_ready_priority_group s"
    and c5: "current_priority (threads s5 c) = ?o"
    and i5: "holder (ipcs s5 i) = None" "msg_waiting (ipcs s5 i) = 1"
    and p5: "primask s5 = 1" and sw5: "switches s5 = switches s"
    by (auto simp: s5_def ip_def)
  have d5: "dll_ok (links s5)" using d by (simp add: l5)
  have m5: "masks_ok s5" using m op by (auto simp: masks_ok_def s5_def)
  have inv5: "ready_bitmap_inv s5" using inv by (simp add: ready_bitmap_inv_def l5 g5)
  have hd5: "ready_heads_ok s5" using hd by (simp add: ready_heads_ok_def l5 g5)
  have wr5: "wait_ring s5 i ws" using wr by (simp add: wait_ring_def l5)
  show ?thesis
  proof (cases ws)
    case Nil
    with wr5 have "wake_one_waiter i s5 = Some (False, s5)" by (simp add: wake_one_waiter_none)
    then have "t_mutex_send_base (Some i) s = Some (T_OK, t_irq_enable (primask s) s5)"
      by (simp add: e)
    then show ?thesis using Nil c5 i5 sw5 by (simp add: t_irq_enable_def)
  next
    case (Cons n ns)
    with wr5 obtain w where n: "n = Tlist w" by (auto simp: wait_ring_def)
    from wake_one_waiter_head [OF d5 m5 inv5 hd5, of i w ns] wr5 Cons n
    obtain s6 where w6: "wake_one_waiter i s5 = Some (True, s6)"
      and st6: "status (threads s6 w) = TO_THREAD_READY"
      and lp6: "lprev (links s6) (ReadyHead (unat (current_priority (threads s5 w)))) = Tlist w"
      and ln6: "lnext (links s6) (Tlist w) = ReadyHead (unat (current_priority (threads s5 w)))"
      and b6: "bit (t_thread_ready_priority_group s6) (unat (current_priority (threads s5 w)))"
      and hd6: "ready_heads_ok s6"
      and i6: "ipcs s6 = ipcs s5" and pm6: "primask s6 = primask s5"
      and th6: "\<forall>t. current_priority (threads s6 t) = current_priority (threads s5 t)
            \<and> init_priority (threads s6 t) = init_priority (threads s5 t)
            \<and> number_mask (threads s6 t) = number_mask (threads s5 t)"
      by blast
    define s7 where "s7 = t_irq_enable (primask s) s6"
    have hd7: "ready_heads_ok s7" using hd6 by (simp add: s7_def t_irq_enable_def ready_heads_ok_def)
    from t_sched_switch_total [OF hd7] obtain s8 where
      e8: "t_sched_switch s7 = Some s8" and i8: "ipcs s8 = ipcs s7" and pm8: "primask s8 = primask s7"
      and th8: "\<forall>t. current_priority (threads s8 t) = current_priority (threads s7 t)
            \<and> init_priority (threads s8 t) = init_priority (threads s7 t)
            \<and> number_mask (threads s8 t) = number_mask (threads s7 t)"
      by blast
    have r: "t_mutex_send_base (Some i) s = Some (T_OK, s8)"
      using w6 e8 by (simp add: e s7_def)
    have f7: "threads s7 = threads s6" "links s7 = links s6"
      "t_thread_ready_priority_group s7 = t_thread_ready_priority_group s6"
      "ipcs s7 = ipcs s6" "primask s7 = primask s"
      by (simp_all add: s7_def t_irq_enable_def)
    have "status (threads s7 w) = TO_THREAD_READY
        \<and> lprev (links s7) (ReadyHead (unat (current_priority (threads s7 w)))) = Tlist w
        \<and> lnext (links s7) (Tlist w) = ReadyHead (unat (current_priority (threads s7 w)))
        \<and> bit (t_thread_ready_priority_group s7) (unat (current_priority (threads s7 w)))"
      using st6 lp6 ln6 b6 th6 by (simp add: f7)
    moreover have "holder (ipcs s8 i) = None \<and> msg_waiting (ipcs s8 i) = 1"
      using i5 by (simp add: i8 f7 i6)
    moreover have "current_priority (threads s8 c) = ?o" using th8 th6 c5 by (simp add: f7)
    moreover have "primask s8 = primask s" by (simp add: pm8 f7)
    ultimately show ?thesis using r e8 Cons n by auto
  qed
qed

text \<open>
  The theorem after priority inheritance: thread 0 holds the mutex with saved priority 3
  and has been raised to 5 by the waiting thread 1; the release puts it back to 3.
\<close>

theorem t_mutex_send_base_outermost_witness:
  "ipc_status (ipcs contended_mutex_kernel 0) \<noteq> 0
   \<and> ipc_type (ipcs contended_mutex_kernel 0) = IPC_MUTEX
   \<and> holder (ipcs contended_mutex_kernel 0) = Some 0
   \<and> t_current_thread contended_mutex_kernel = Some 0
   \<and> recursive (ipcs contended_mutex_kernel 0) = 1
   \<and> original_prio (ipcs contended_mutex_kernel 0) = 3
   \<and> current_priority (threads contended_mutex_kernel 0) = 5
   \<and> dll_ok (links contended_mutex_kernel) \<and> masks_ok contended_mutex_kernel
   \<and> ready_bitmap_inv contended_mutex_kernel \<and> ready_heads_ok contended_mutex_kernel
   \<and> wait_ring contended_mutex_kernel 0 [Tlist 1]
   \<and> (\<exists>s'. t_mutex_send_base (Some 0) contended_mutex_kernel = Some (T_OK, s')
         \<and> holder (ipcs s' 0) = None \<and> msg_waiting (ipcs s' 0) = 1
         \<and> current_priority (threads s' 0) = 3
         \<and> primask s' = primask contended_mutex_kernel)"
proof -
  let ?K = contended_mutex_kernel
  have a: "ipc_status (ipcs ?K 0) \<noteq> 0" "ipc_type (ipcs ?K 0) = IPC_MUTEX"
    "holder (ipcs ?K 0) = Some 0" "t_current_thread ?K = Some 0" "recursive (ipcs ?K 0) = 1"
    "original_prio (ipcs ?K 0) = 3" "current_priority (threads ?K 0) = 5"
    by (simp_all add: contended_mutex_kernel_fields pi_held_kernel_fields boot_defs)
  have op: "unat (original_prio (ipcs ?K 0)) < TO_THREAD_PRIORITY_MAX"
    by (simp add: a TO_THREAD_PRIORITY_MAX_def)
  have ty: "ipc_type (ipcs ?K 0) = IPC_MUTEX \<or> ipc_type (ipcs ?K 0) = IPC_RECURSIVE_MUTEX"
    by (simp add: a)
  have d: "dll_ok (links ?K)"
    by (auto simp: dll_ok_def contended_mutex_kernel_fields)
  have m: "masks_ok ?K"
    by (auto simp: masks_ok_def contended_mutex_kernel_fields boot_defs const_defs)
  have inv: "ready_bitmap_inv ?K"
    by (simp add: ready_bitmap_inv_iff contended_mutex_kernel_fields)
  have hd: "ready_heads_ok ?K"
    by (simp add: ready_heads_ok_iff contended_mutex_kernel_fields)
  have wr: "wait_ring ?K 0 [Tlist 1]"
    by (simp add: wait_ring_def ring_def contended_mutex_kernel_fields)
  from t_mutex_send_base_outermost [OF a(1) ty a(3) a(4) a(5) op d m inv hd wr]
  show ?thesis using a d m inv hd wr by auto
qed

section \<open>C7: the owner acquires a mutex again\<close>

text \<open>
  C7, as the code has it. For every valid mutex that the calling thread owns,
  \<^verbatim>\<open>t_mutex_recv_base\<close> called again by the owner returns \<^verbatim>\<open>T_OK\<close> whatever the timeout,
  for a plain mutex (\<^verbatim>\<open>IPC_MUTEX\<close>) as for a recursive one, leaving the owner and
  \<^verbatim>\<open>msg_waiting\<close> unchanged and the interrupt mask as it was; the recursion count of a
  plain mutex is unchanged.
\<close>

theorem t_mutex_recv_base_owner_again:
  assumes "ipc_status (ipcs s i) \<noteq> 0" and "msg_waiting (ipcs s i) = 0"
    and "holder (ipcs s i) = Some c" and "t_current_thread s = Some c"
  shows "\<exists>s'. t_mutex_recv_base (Some i) timeout s = Some (Returned T_OK, s')
     \<and> holder (ipcs s' i) = holder (ipcs s i)
     \<and> msg_waiting (ipcs s' i) = msg_waiting (ipcs s i)
     \<and> (ipc_type (ipcs s i) = IPC_MUTEX \<longrightarrow> recursive (ipcs s' i) = recursive (ipcs s i))
     \<and> primask s' = primask s"
  using assms
  by (simp add: t_mutex_recv_base_def t_irq_disable_def t_irq_enable_def ipc_upd_def Let_def)

text \<open>The theorem at a plain mutex that thread 0 has acquired once.\<close>

theorem t_mutex_recv_base_owner_again_witness:
  "ipc_status (ipcs (held_mutex_kernel IPC_MUTEX) 0) \<noteq> 0
   \<and> msg_waiting (ipcs (held_mutex_kernel IPC_MUTEX) 0) = 0
   \<and> holder (ipcs (held_mutex_kernel IPC_MUTEX) 0) = Some 0
   \<and> t_current_thread (held_mutex_kernel IPC_MUTEX) = Some 0
   \<and> ipc_type (ipcs (held_mutex_kernel IPC_MUTEX) 0) = IPC_MUTEX
   \<and> (\<exists>s'. t_mutex_recv_base (Some 0) 0 (held_mutex_kernel IPC_MUTEX) = Some (Returned T_OK, s')
        \<and> holder (ipcs s' 0) = Some 0 \<and> msg_waiting (ipcs s' 0) = 0 \<and> recursive (ipcs s' 0) = 1)"
  using t_mutex_recv_base_owner_again [of "held_mutex_kernel IPC_MUTEX" 0 0 0]
  by (simp add: held_mutex_kernel_fields boot_ipc_def) blast

text \<open>
  C7 as stated fails: the owner's second \<^verbatim>\<open>t_mutex_recv_base\<close> on a plain
  (\<^verbatim>\<open>IPC_MUTEX\<close>) mutex returns \<^verbatim>\<open>T_OK\<close>, not an error.
\<close>

theorem plain_mutex_owner_reacquire_returns_ok:
  "ipc_type (ipcs (held_mutex_kernel IPC_MUTEX) 0) = IPC_MUTEX
   \<and> holder (ipcs (held_mutex_kernel IPC_MUTEX) 0) = t_current_thread (held_mutex_kernel IPC_MUTEX)
   \<and> holder (ipcs (held_mutex_kernel IPC_MUTEX) 0) = Some 0
   \<and> map_option fst (t_mutex_recv_base (Some 0) 0 (held_mutex_kernel IPC_MUTEX)) = Some (Returned T_OK)"
  by (simp add: held_mutex_kernel_fields boot_ipc_def t_mutex_recv_base_def upd_defs Let_def)

section \<open>C8: the recursion count\<close>

text \<open>
  Each further acquisition by the owner of a recursive mutex adds one to the 16-bit
  recursion count, modulo \<open>2 ^ 16\<close>; \<^verbatim>\<open>MUTEX_RECURSIVE_COUNT_MAX\<close> is never consulted.
\<close>

lemma recursive_reacquire_step:
  assumes "ipc_status (ipcs s i) \<noteq> 0" and "msg_waiting (ipcs s i) = 0"
    and "holder (ipcs s i) = Some c" and "t_current_thread s = Some c"
    and "ipc_type (ipcs s i) = IPC_RECURSIVE_MUTEX"
  shows "t_mutex_recv_base (Some i) timeout s
           = Some (Returned T_OK, ipc_upd i (\<lambda>x. x\<lparr>recursive := recursive x + 1\<rparr>) s)"
  using assms
  by (simp add: t_mutex_recv_base_def t_irq_disable_def t_irq_enable_def ipc_upd_def Let_def)

lemma mutex_recv_n_recursive:
  assumes "ipc_status (ipcs s i) \<noteq> 0" and "msg_waiting (ipcs s i) = 0"
    and "holder (ipcs s i) = Some c" and "t_current_thread s = Some c"
    and "ipc_type (ipcs s i) = IPC_RECURSIVE_MUTEX"
  shows "mutex_recv_n n i s = Some (ipc_upd i (\<lambda>x. x\<lparr>recursive := recursive x + of_nat n\<rparr>) s)"
  using assms
proof (induction n arbitrary: s)
  case 0
  then show ?case by (simp add: ipc_upd_def)
next
  case (Suc n)
  let ?s1 = "ipc_upd i (\<lambda>x. x\<lparr>recursive := recursive x + 1\<rparr>) s"
  have "mutex_recv_n (Suc n) i s = mutex_recv_n n i ?s1"
    using recursive_reacquire_step [OF Suc.prems, of 0] by simp
  also have "\<dots> = Some (ipc_upd i (\<lambda>x. x\<lparr>recursive := recursive x + of_nat n\<rparr>) ?s1)"
    by (rule Suc.IH) (use Suc.prems in \<open>simp_all add: ipc_upd_def\<close>)
  finally show ?case by (simp add: ipc_upd_def ac_simps)
qed

text \<open>
  C8 fails on the code. A recursive mutex acquired once has count 1; after 255 further
  acquisitions by the owner the count is 256, above \<^verbatim>\<open>MUTEX_RECURSIVE_COUNT_MAX\<close>, and
  after 65535 it has wrapped to 0.
\<close>

theorem recursion_count_passes_limit_and_wraps:
  "recursive (ipcs (held_mutex_kernel IPC_RECURSIVE_MUTEX) 0) = 1
   \<and> map_option (\<lambda>s. recursive (ipcs s 0)) (mutex_recv_n 255 0 (held_mutex_kernel IPC_RECURSIVE_MUTEX))
       = Some 256
   \<and> MUTEX_RECURSIVE_COUNT_MAX < 256
   \<and> map_option (\<lambda>s. recursive (ipcs s 0)) (mutex_recv_n 65535 0 (held_mutex_kernel IPC_RECURSIVE_MUTEX))
       = Some 0"
  by (simp add: mutex_recv_n_recursive [where c = 0] held_mutex_kernel_fields boot_ipc_def
      ipc_upd_def MUTEX_RECURSIVE_COUNT_MAX_def)

section \<open>C9: the scheduler suspend counter\<close>

text \<open>
  C9, as the code has it. When no \<^verbatim>\<open>t_sched_resume\<close> is called at depth 0 and the depth
  stays below \<open>2 ^ 32\<close>, every sequence of \<^verbatim>\<open>t_sched_suspend\<close> and \<^verbatim>\<open>t_sched_resume\<close>
  calls returns and leaves the counter equal to the nesting depth, so it never wraps. A
  \<^verbatim>\<open>t_sched_resume\<close> that brings the counter from 1 to 0 while
  \<^verbatim>\<open>t_cur_num_of_ready_tasks\<close> is positive calls \<^verbatim>\<open>t_sched_switch\<close>, and while the counter
  is not zero \<^verbatim>\<open>t_sched_switch\<close> changes nothing.
\<close>

theorem suspend_counter_balanced:
  "(ready_heads_ok s \<and> nesting_ok cs (unat (t_schedulue_suspend s)) \<longrightarrow>
      (\<exists>s'. susp_run cs s = Some s'
          \<and> unat (t_schedulue_suspend s') = nesting_after cs (unat (t_schedulue_suspend s))))
   \<and> (t_schedulue_suspend s = 1 \<and> 0 < t_cur_num_of_ready_tasks s \<longrightarrow>
        t_sched_resume s = t_sched_switch (s\<lparr>t_schedulue_suspend := 0\<rparr>))
   \<and> (t_schedulue_suspend s \<noteq> 0 \<longrightarrow> t_sched_switch s = Some s)"
  using susp_run_nesting [of s cs]
  by (auto simp: t_sched_resume_def t_sched_switch_def Let_def)

text \<open>
  The theorem at a state with one queued thread and the scheduler suspended once: a
  nested suspend and two resumes bring the counter back to 0.
\<close>

theorem suspend_counter_balanced_witness:
  "ready_heads_ok (t_sched_suspend one_ready_kernel)
   \<and> t_schedulue_suspend (t_sched_suspend one_ready_kernel) = 1
   \<and> 0 < t_cur_num_of_ready_tasks (t_sched_suspend one_ready_kernel)
   \<and> nesting_ok [Suspend, Resume, Resume] (unat (t_schedulue_suspend (t_sched_suspend one_ready_kernel)))
   \<and> (\<exists>s'. susp_run [Suspend, Resume, Resume] (t_sched_suspend one_ready_kernel) = Some s'
          \<and> unat (t_schedulue_suspend s') = 0)
   \<and> t_sched_resume (t_sched_suspend one_ready_kernel)
        = t_sched_switch (t_sched_suspend one_ready_kernel\<lparr>t_schedulue_suspend := 0\<rparr>)
   \<and> t_sched_switch (t_sched_suspend one_ready_kernel) = Some (t_sched_suspend one_ready_kernel)"
  using suspend_counter_balanced [of "t_sched_suspend one_ready_kernel" "[Suspend, Resume, Resume]"]
    ready_heads_ok_one_ready
  by (simp add: t_sched_suspend_def one_ready_kernel_fields)

text \<open>
  C9 as stated fails: the counter is an unsigned 32-bit value that \<^verbatim>\<open>t_sched_resume\<close>
  decrements unconditionally. One resume from the initial state wraps it from 0 to
  \<open>0xFFFFFFFF\<close>.
\<close>

theorem unmatched_resume_wraps_counter:
  "t_schedulue_suspend (t_sched_init boot_kernel) = 0
   \<and> map_option t_schedulue_suspend (susp_run [Resume] (t_sched_init boot_kernel)) = Some 0xFFFFFFFF"
  by (simp add: t_sched_resume_def t_sched_init_def upd_defs boot_defs Let_def)

section \<open>C10: starting a thread\<close>

text \<open>
  C10. \<^verbatim>\<open>t_thread_startup\<close> returns \<^verbatim>\<open>T_NULL\<close> for a null pointer and \<^verbatim>\<open>T_ERR\<close> for a
  DELETED thread, changing nothing. For every other status, whatever it is, of a thread
  whose initial priority is a valid index (as \<^verbatim>\<open>t_thread_create_static\<close> guarantees), it
  returns \<^verbatim>\<open>T_OK\<close>, the status is READY, the current priority is the initial priority, the
  remaining slice is the initial slice, and the thread's node is the tail of the ready list
  of that priority: the head's \<^verbatim>\<open>prev\<close> is the node, the node's \<^verbatim>\<open>next\<close> is the head, the
  node's \<^verbatim>\<open>prev\<close> is the old tail, and the old tail (when it is another node) points to it.
\<close>

theorem t_thread_startup_any_live_status:
  "(thread = None \<longrightarrow> t_thread_startup thread s = Some (T_NULL, s)) \<and>
   (\<forall>t. thread = Some t \<and> status (threads s t) = TO_THREAD_DELETED \<longrightarrow>
        t_thread_startup thread s = Some (T_ERR, s)) \<and>
   (\<forall>t. thread = Some t \<and> status (threads s t) \<noteq> TO_THREAD_DELETED
        \<and> unat (init_priority (threads s t)) < TO_THREAD_PRIORITY_MAX \<longrightarrow>
      (\<exists>s'. t_thread_startup thread s = Some (T_OK, s')
        \<and> status (threads s' t) = TO_THREAD_READY
        \<and> current_priority (threads s' t) = init_priority (threads s t)
        \<and> remaining_tick (threads s' t) = init_tick (threads s t)
        \<and> lprev (links s') (ReadyHead (unat (init_priority (threads s t)))) = Tlist t
        \<and> lnext (links s') (Tlist t) = ReadyHead (unat (init_priority (threads s t)))
        \<and> lprev (links s') (Tlist t) = lprev (links s) (ReadyHead (unat (init_priority (threads s t))))
        \<and> (lprev (links s) (ReadyHead (unat (init_priority (threads s t)))) \<noteq> Tlist t \<longrightarrow>
             lnext (links s') (lprev (links s) (ReadyHead (unat (init_priority (threads s t))))) = Tlist t)))"
  by (auto simp: t_thread_startup_def t_irq_disable_def t_irq_enable_def thread_upd_def
        links_upd_def t_list_insert_before_def set_next_def set_prev_def Let_def)

text \<open>
  The theorem at a thread that is already READY and already linked in its ready list.
\<close>

theorem t_thread_startup_any_live_status_witness:
  "status (threads started_kernel 0) = TO_THREAD_READY
   \<and> status (threads started_kernel 0) \<noteq> TO_THREAD_DELETED
   \<and> unat (init_priority (threads started_kernel 0)) < TO_THREAD_PRIORITY_MAX
   \<and> lprev (links started_kernel) (ReadyHead 3) = Tlist 0
   \<and> (\<exists>s'. t_thread_startup (Some 0) started_kernel = Some (T_OK, s')
        \<and> status (threads s' 0) = TO_THREAD_READY
        \<and> current_priority (threads s' 0) = 3
        \<and> remaining_tick (threads s' 0) = 5
        \<and> lprev (links s') (ReadyHead 3) = Tlist 0
        \<and> lnext (links s') (Tlist 0) = ReadyHead 3)"
  using t_thread_startup_any_live_status [of "Some 0" started_kernel]
  by (simp add: started_kernel_fields boot_thread_def const_defs) blast

section \<open>C3: the tick difference\<close>

lemma get_tick_diff_no_wrap:
  "start_tick \<le> end_tick \<Longrightarrow> get_tick_diff start_tick end_tick = end_tick - start_tick"
  by (simp add: get_tick_diff_def)

lemma get_tick_diff_wrap:
  "end_tick < start_tick \<Longrightarrow> get_tick_diff start_tick end_tick = end_tick - start_tick - 1"
  by (simp add: get_tick_diff_def not_le [symmetric])

text \<open>
  C3. The claim is that \<^verbatim>\<open>get_tick_diff(start, end)\<close> is the modular difference
  \<open>(end - start) mod 2 ^ 32\<close> for all samples. With \<open>start = 1\<close> and \<open>end = 0\<close>, where the
  counter has wrapped, the modular difference is \<open>0xFFFFFFFF\<close> and the function returns
  \<open>0xFFFFFFFE\<close>: it adds \<open>2 ^ 32 - 1\<close> where the wrap is \<open>2 ^ 32\<close>, so on every wrapped
  pair it is one tick short. The branch for a single timer list does give the modular
  difference.
\<close>

theorem get_tick_diff_wrap_short_by_one:
  "get_tick_diff 1 0 = 0xFFFFFFFE \<and> (0 :: t_uint32_t) - 1 = 0xFFFFFFFF
   \<and> get_tick_diff 1 0 \<noteq> 0 - 1
   \<and> get_tick_diff_single_list 1 0 = 0 - 1"
  by (simp add: get_tick_diff_def get_tick_diff_single_list_def)

end
